theory Spec2Isabelle
  imports Complex_Main "HOL-Library.Option_ord" "HOL-Library.Multiset"
begin

section \<open>Strings and characters\<close>

text \<open>
  A JavaScript string is modelled as a \<open>string\<close> (a list of characters). The model covers
  ASCII text: the character classes, \<open>toLowerCase\<close> and \<open>toUpperCase\<close> below act on the
  ASCII letters and leave every other character as it is.
\<close>

definition charCode :: "char \<Rightarrow> nat" where
  "charCode c = of_char c"

definition is_digit :: "char \<Rightarrow> bool" where
  "is_digit c = (48 \<le> charCode c \<and> charCode c \<le> 57)"

definition is_upper :: "char \<Rightarrow> bool" where
  "is_upper c = (65 \<le> charCode c \<and> charCode c \<le> 90)"

definition is_lower :: "char \<Rightarrow> bool" where
  "is_lower c = (97 \<le> charCode c \<and> charCode c \<le> 122)"

definition is_letter :: "char \<Rightarrow> bool" where
  "is_letter c = (is_upper c \<or> is_lower c)"

text \<open>The class \<open>[A-Za-z0-9]\<close>.\<close>

definition is_alnum :: "char \<Rightarrow> bool" where
  "is_alnum c = (is_letter c \<or> is_digit c)"

text \<open>The class \<open>\w\<close>, which decides the word boundary \<open>\b\<close>.\<close>

definition is_word :: "char \<Rightarrow> bool" where
  "is_word c = (is_alnum c \<or> c = CHR ''_'')"

text \<open>The class \<open>[A-Za-z0-9\-]\<close>.\<close>

definition is_idchar :: "char \<Rightarrow> bool" where
  "is_idchar c = (is_alnum c \<or> c = CHR ''-'')"

text \<open>The class \<open>[A-Za-z ]\<close>.\<close>

definition is_namechar :: "char \<Rightarrow> bool" where
  "is_namechar c = (is_letter c \<or> c = CHR '' '')"

text \<open>The class \<open>\s\<close> (space, tab, line feed, vertical tab, form feed, carriage return).\<close>

definition is_space :: "char \<Rightarrow> bool" where
  "is_space c = (charCode c = 32 \<or> (9 \<le> charCode c \<and> charCode c \<le> 13))"

definition lower_char :: "char \<Rightarrow> char" where
  "lower_char c = (if is_upper c then char_of (charCode c + 32) else c)"

definition upper_char :: "char \<Rightarrow> char" where
  "upper_char c = (if is_lower c then char_of (charCode c - 32) else c)"

definition toLowerCase :: "string \<Rightarrow> string" where
  "toLowerCase s = map lower_char s"

definition toUpperCase :: "string \<Rightarrow> string" where
  "toUpperCase s = map upper_char s"

text \<open>\<open>s.trim()\<close>.\<close>

definition trim :: "string \<Rightarrow> string" where
  "trim s = rev (dropWhile is_space (rev (dropWhile is_space s)))"

section \<open>Regular expressions of the controller\<close>

text \<open>
  Each regular expression of the source is written as a matcher anchored at one position of
  the input: it gets the character before the position (for \<open>\b\<close>) and the input from the
  position on, and returns what the match yields, or \<open>None\<close>. \<open>search\<close> is the engine's
  loop over the start positions, leftmost first. Alternatives and optional groups are tried
  in the engine's order with \<open>orelse\<close>.
\<close>

fun lit :: "string \<Rightarrow> string \<Rightarrow> string option" where
  "lit [] s = Some s"
| "lit (p # ps) [] = None"
| "lit (p # ps) (c # cs) = (if p = c then lit ps cs else None)"

text \<open>A literal under the flag \<open>i\<close>.\<close>

fun liti :: "string \<Rightarrow> string \<Rightarrow> string option" where
  "liti [] s = Some s"
| "liti (p # ps) [] = None"
| "liti (p # ps) (c # cs) = (if lower_char p = lower_char c then liti ps cs else None)"

definition orelse :: "'a option \<Rightarrow> 'a option \<Rightarrow> 'a option" where
  "orelse a b = (case a of Some x \<Rightarrow> Some x | None \<Rightarrow> b)"

fun first_of :: "'a option list \<Rightarrow> 'a option" where
  "first_of [] = None"
| "first_of (a # as) = orelse a (first_of as)"

fun search :: "(char option \<Rightarrow> string \<Rightarrow> 'a option) \<Rightarrow> char option \<Rightarrow> string \<Rightarrow> 'a option" where
  "search m prev [] = m prev []"
| "search m prev (c # cs) =
     (case m prev (c # cs) of Some r \<Rightarrow> Some r | None \<Rightarrow> search m (Some c) cs)"

text \<open>\<open>re.test(s)\<close> and \<open>s.match(re)\<close> for a matcher \<open>m\<close>.\<close>

definition matches :: "(char option \<Rightarrow> string \<Rightarrow> 'a option) \<Rightarrow> string \<Rightarrow> 'a option" where
  "matches m s = search m None s"

definition test :: "(char option \<Rightarrow> string \<Rightarrow> 'a option) \<Rightarrow> string \<Rightarrow> bool" where
  "test m s = (matches m s \<noteq> None)"

definition word_before :: "char option \<Rightarrow> bool" where
  "word_before prev = (case prev of None \<Rightarrow> False | Some c \<Rightarrow> is_word c)"

definition word_after :: "string \<Rightarrow> bool" where
  "word_after s = (case s of [] \<Rightarrow> False | c # cs \<Rightarrow> is_word c)"

text \<open>\<open>\b\<close>: exactly one of the two neighbours is a word character.\<close>

definition boundary :: "char option \<Rightarrow> string \<Rightarrow> bool" where
  "boundary prev s = (word_before prev \<noteq> word_after s)"

text \<open>\<open>\bw\b\<close> for a literal \<open>w\<close>, with the flag \<open>i\<close> when \<open>ci\<close>.\<close>

definition lit_b :: "bool \<Rightarrow> string \<Rightarrow> char option \<Rightarrow> string \<Rightarrow> string option" where
  "lit_b ci w prev s =
     (if boundary prev s then
        (case (if ci then liti w s else lit w s) of
           None \<Rightarrow> None
         | Some r \<Rightarrow> if boundary (Some (last (take (length w) s))) r then Some r else None)
      else None)"

text \<open>A greedy, non-empty run of a character class, as a capture group.\<close>

definition run1 :: "(char \<Rightarrow> bool) \<Rightarrow> string \<Rightarrow> string option" where
  "run1 cls s = (if takeWhile cls s = [] then None else Some (takeWhile cls s))"

subsection \<open>extractTrackingIdFrom\<close>

text \<open>
  \<open>/\bORD-[A-Za-z0-9]+\b/i\<close>. The run \<open>[A-Za-z0-9]+\<close> is greedy; a shorter run would end
  between two word characters, where \<open>\b\<close> fails, so the match at a position exists exactly
  when the longest run is followed by the end of the input or by a character that is not a
  word character. The result is the matched text \<open>m[0]\<close>.
\<close>

definition re_ord_token :: "char option \<Rightarrow> string \<Rightarrow> string option" where
  "re_ord_token prev s =
     (if boundary prev s then
        (case liti ''ORD-'' s of
           None \<Rightarrow> None
         | Some r \<Rightarrow>
             (let run = takeWhile is_alnum r; rest = dropWhile is_alnum r in
              if run \<noteq> [] \<and> boundary (Some (last run)) rest
              then Some (take 4 s @ run) else None))
      else None)"

definition extractTrackingIdFrom :: "string \<Rightarrow> string option" where
  "extractTrackingIdFrom s = map_option toUpperCase (matches re_ord_token s)"

subsection \<open>parseIntent\<close>

text \<open>\<open>/create (an )?order|place order|i want to order|new order|add order/\<close>\<close>

definition re_create :: "char option \<Rightarrow> string \<Rightarrow> string option" where
  "re_create prev s = first_of
     [Option.bind (lit ''create '' s)
        (\<lambda>r. orelse (Option.bind (lit ''an '' r) (lit ''order'')) (lit ''order'' r)),
      lit ''place order'' s,
      lit ''i want to order'' s,
      lit ''new order'' s,
      lit ''add order'' s]"

text \<open>\<open>/track (?:order )?([A-Za-z0-9\-]+)/i\<close>, yielding the capture group.\<close>

definition re_track :: "char option \<Rightarrow> string \<Rightarrow> string option" where
  "re_track prev s =
     Option.bind (liti ''track '' s)
       (\<lambda>r. orelse (Option.bind (liti ''order '' r) (run1 is_idchar)) (run1 is_idchar r))"

text \<open>\<open>/where is order ([A-Za-z0-9\-]+)/i\<close>, yielding the capture group.\<close>

definition re_where :: "char option \<Rightarrow> string \<Rightarrow> string option" where
  "re_where prev s = Option.bind (liti ''where is order '' s) (run1 is_idchar)"

text \<open>\<open>/next pickup|next delivery|next order|what's my next pickup|what is my next pickup/\<close>\<close>

definition re_next :: "char option \<Rightarrow> string \<Rightarrow> string option" where
  "re_next prev s = first_of
     [lit ''next pickup'' s,
      lit ''next delivery'' s,
      lit ''next order'' s,
      lit (''what'' @ [CHR 0x27] @ ''s my next pickup'') s,
      lit ''what is my next pickup'' s]"

text \<open>\<open>/list (my )?orders|show (my )?orders|recent orders/\<close>\<close>

definition re_list :: "char option \<Rightarrow> string \<Rightarrow> string option" where
  "re_list prev s = first_of
     [Option.bind (lit ''list '' s)
        (\<lambda>r. orelse (Option.bind (lit ''my '' r) (lit ''orders'')) (lit ''orders'' r)),
      Option.bind (lit ''show '' s)
        (\<lambda>r. orelse (Option.bind (lit ''my '' r) (lit ''orders'')) (lit ''orders'' r)),
      lit ''recent orders'' s]"

text \<open>\<open>/\bcancel order\b/\<close>\<close>

definition re_cancel :: "char option \<Rightarrow> string \<Rightarrow> string option" where
  "re_cancel prev s = lit_b False ''cancel order'' prev s"

text \<open>\<open>/\bdelete order\b|\bremove order\b/\<close>\<close>

definition re_delete :: "char option \<Rightarrow> string \<Rightarrow> string option" where
  "re_delete prev s = first_of
     [lit_b False ''delete order'' prev s, lit_b False ''remove order'' prev s]"

text \<open>\<open>/add address|update address/\<close>\<close>

definition re_address :: "char option \<Rightarrow> string \<Rightarrow> string option" where
  "re_address prev s = first_of [lit ''add address'' s, lit ''update address'' s]"

text \<open>\<open>/\bupdate\b|\bmodify\b|\bchange\b/\<close>\<close>

definition re_update :: "char option \<Rightarrow> string \<Rightarrow> string option" where
  "re_update prev s = first_of
     [lit_b False ''update'' prev s, lit_b False ''modify'' prev s, lit_b False ''change'' prev s]"

record parsed =
  intent :: string
  captured :: "string option"

definition parseIntent :: "string \<Rightarrow> parsed" where
  "parseIntent txt =
     (let t = toLowerCase txt in
      if test re_create t then \<lparr>intent = ''create_order'', captured = None\<rparr>
      else
        (case orelse (matches re_track t) (matches re_where t) of
           Some tid \<Rightarrow> \<lparr>intent = ''track_order'', captured = Some tid\<rparr>
         | None \<Rightarrow>
             if test re_next t then \<lparr>intent = ''next_pickup'', captured = None\<rparr>
             else if test re_list t then \<lparr>intent = ''list_orders'', captured = None\<rparr>
             else if test re_cancel t then \<lparr>intent = ''cancel_order'', captured = None\<rparr>
             else if test re_delete t then \<lparr>intent = ''delete_order'', captured = None\<rparr>
             else if test re_address t then \<lparr>intent = ''update_address'', captured = None\<rparr>
             else if test re_update t then \<lparr>intent = ''update_order'', captured = None\<rparr>
             else \<lparr>intent = ''general'', captured = None\<rparr>))"

section \<open>String operations of the runtime\<close>

text \<open>\<open>s.slice(a, b)\<close> for \<open>0 \<le> a \<le> b\<close>.\<close>

definition slice :: "nat \<Rightarrow> nat \<Rightarrow> string \<Rightarrow> string" where
  "slice a b s = take (b - a) (drop a s)"

text \<open>\<open>xs[i]\<close>, \<open>undefined\<close> out of range.\<close>

fun nth_opt :: "'a list \<Rightarrow> nat \<Rightarrow> 'a option" where
  "nth_opt [] i = None"
| "nth_opt (x # xs) 0 = Some x"
| "nth_opt (x # xs) (Suc i) = nth_opt xs i"

text \<open>\<open>xs.join(sep)\<close>.\<close>

fun join :: "string \<Rightarrow> string list \<Rightarrow> string" where
  "join sep [] = []"
| "join sep [x] = x"
| "join sep (x # y # ys) = x @ sep @ join sep (y # ys)"

definition cons_first :: "char \<Rightarrow> string list \<Rightarrow> string list" where
  "cons_first c ps = (case ps of [] \<Rightarrow> [[c]] | p # qs \<Rightarrow> (c # p) # qs)"

text \<open>
  \<open>s.split(re)\<close> for a separator without capture groups that never matches the empty
  string. The counter is the number of characters of the current match still to skip.
\<close>

fun split_on :: "(char option \<Rightarrow> string \<Rightarrow> string option) \<Rightarrow> nat \<Rightarrow> char option \<Rightarrow> string \<Rightarrow> string list" where
  "split_on m k prev [] = [[]]"
| "split_on m (Suc k) prev (c # cs) = split_on m k (Some c) cs"
| "split_on m 0 prev (c # cs) =
     (case m prev (c # cs) of
        None \<Rightarrow> cons_first c (split_on m 0 (Some c) cs)
      | Some r \<Rightarrow>
          if length r \<le> length cs then [] # split_on m (length cs - length r) (Some c) cs
          else cons_first c (split_on m 0 (Some c) cs))"

definition split :: "(char option \<Rightarrow> string \<Rightarrow> string option) \<Rightarrow> string \<Rightarrow> string list" where
  "split m s = split_on m 0 None s"

text \<open>\<open>s.replace(re, rep)\<close> for a pattern with the flag \<open>g\<close> that never matches the empty string.\<close>

fun replace_on :: "(char option \<Rightarrow> string \<Rightarrow> string option) \<Rightarrow> string \<Rightarrow> nat \<Rightarrow> char option \<Rightarrow> string \<Rightarrow> string" where
  "replace_on m rep k prev [] = []"
| "replace_on m rep (Suc k) prev (c # cs) = replace_on m rep k (Some c) cs"
| "replace_on m rep 0 prev (c # cs) =
     (case m prev (c # cs) of
        None \<Rightarrow> c # replace_on m rep 0 (Some c) cs
      | Some r \<Rightarrow>
          if length r \<le> length cs then rep @ replace_on m rep (length cs - length r) (Some c) cs
          else c # replace_on m rep 0 (Some c) cs)"

definition replace_all :: "(char option \<Rightarrow> string \<Rightarrow> string option) \<Rightarrow> string \<Rightarrow> string \<Rightarrow> string" where
  "replace_all m rep s = replace_on m rep 0 None s"

text \<open>An alternation of literals under the flag \<open>i\<close>, such as \<open>/(?:remove|status|assign|pickup)/i\<close>.\<close>

definition alts_i :: "string list \<Rightarrow> char option \<Rightarrow> string \<Rightarrow> string option" where
  "alts_i ps prev s = first_of (map (\<lambda>p. liti p s) ps)"

text \<open>A string separator, as in \<open>text.split(trackingId)\<close>.\<close>

definition sep_lit :: "string \<Rightarrow> char option \<Rightarrow> string \<Rightarrow> string option" where
  "sep_lit p prev s = (if p = [] then None else lit p s)"

text \<open>
  \<open>n.toString(radix)\<close> for an integer \<open>n\<close>: digits \<open>0-9a-z\<close>, most significant first, after
  a minus sign when \<open>n\<close> is negative.
\<close>

definition digits36 :: string where
  "digits36 = ''0123456789abcdefghijklmnopqrstuvwxyz''"

definition digit_char :: "int \<Rightarrow> char" where
  "digit_char d = (if 0 \<le> d \<and> d < 36 then digits36 ! nat d else CHR ''?'')"

function toStringRadix :: "int \<Rightarrow> int \<Rightarrow> string" where
  "toStringRadix b n =
     (if n < 0 then CHR ''-'' # toStringRadix b (- n)
      else if b < 2 \<or> n < b then [digit_char n]
      else toStringRadix b (n div b) @ [digit_char (n mod b)])"
  by pat_completeness auto
termination
proof (relation "measure (\<lambda>(b, n). if n < 0 then nat (- n) + 1 else nat n)")
  show "wf (measure (\<lambda>(b, n). if n < 0 then nat (- n) + 1 else nat n))"
    by simp
next
  fix b n :: int
  assume "n < 0"
  then show "((b, - n), (b, n)) \<in> measure (\<lambda>(b, n). if n < 0 then nat (- n) + 1 else nat n)"
    by simp
next
  fix b n :: int
  assume "\<not> n < 0" and "\<not> (b < 2 \<or> n < b)"
  then have "0 < n" "1 < b" by simp_all
  then have "n div b < n" "0 \<le> n div b"
    by (simp_all add: int_div_less_self pos_imp_zdiv_nonneg_iff)
  then show "((b, n div b), (b, n)) \<in> measure (\<lambda>(b, n). if n < 0 then nat (- n) + 1 else nat n)"
    using \<open>0 < n\<close> by simp
qed

text \<open>\<open>parseInt(s, 10)\<close> on a string of decimal digits.\<close>

definition parseInt :: "string \<Rightarrow> nat" where
  "parseInt s = foldl (\<lambda>a c. 10 * a + (charCode c - 48)) 0 s"

section \<open>Deterministic extractors\<close>

subsection \<open>makeTrackingId\<close>

text \<open>
  \<open>"ORD-" + Date.now().toString(36) + Math.random().toString(36).slice(2, 8).toUpperCase()\<close>.
  The clock value and the text \<open>Math.random().toString(36)\<close> are inputs; the method call
  \<open>toUpperCase()\<close> binds to the random part only.
\<close>

definition makeTrackingId :: "int \<Rightarrow> string \<Rightarrow> string" where
  "makeTrackingId now rnd = ''ORD-'' @ toStringRadix 36 now @ toUpperCase (slice 2 8 rnd)"

subsection \<open>extractAssignee\<close>

text \<open>
  \<open>\s+([A-Za-z ]+)\<close>: the whitespace run is greedy. When no letter follows it, the engine
  backtracks and gives whitespace back; the group can then only start at the last space
  character of the run (not its first character), and captures that one space.
\<close>

definition ws_capture :: "string \<Rightarrow> string option" where
  "ws_capture s =
     (let w = takeWhile is_space s; rest = dropWhile is_space s in
      if w = [] then None
      else if takeWhile is_namechar rest \<noteq> [] then Some (takeWhile is_namechar rest)
      else if CHR '' '' \<in> set (tl w) then Some '' ''
      else None)"

text \<open>\<open>/assign(?:\s+to)?\s+([A-Za-z ]+)/i\<close>, yielding the capture group.\<close>

definition re_assign :: "char option \<Rightarrow> string \<Rightarrow> string option" where
  "re_assign prev s =
     Option.bind (liti ''assign'' s)
       (\<lambda>r. orelse
          (if takeWhile is_space r = [] then None
           else Option.bind (liti ''to'' (dropWhile is_space r)) ws_capture)
          (ws_capture r))"

definition extractAssignee :: "string \<Rightarrow> string option" where
  "extractAssignee s = map_option trim (matches re_assign s)"

subsection \<open>extractStatus\<close>

definition extractStatus :: "string \<Rightarrow> string option" where
  "extractStatus s =
     (let lower = toLowerCase s in
      if test (lit_b False ''delivered'') lower then Some ''delivered''
      else if test (lit_b False ''processing'') lower then Some ''processing''
      else if test (lit_b False ''shipped'') lower then Some ''shipped''
      else None)"

subsection \<open>extractPickupTime\<close>

text \<open>
  \<open>/(\d{1,2})(?::(\d{2}))?\s*(am|pm)?/i\<close>, yielding the three capture groups (the third
  lower-cased, as the caller reads it). Every part after the first group can match the empty
  string, so the greedy choices are final.
\<close>

definition re_time :: "char option \<Rightarrow> string \<Rightarrow> (string \<times> string option \<times> string option) option" where
  "re_time prev s =
     (let h = takeWhile is_digit (take 2 s) in
      if h = [] then None
      else
        (let r1 = drop (length h) s;
             mins = (case r1 of
                       [] \<Rightarrow> None
                     | c # r \<Rightarrow>
                         if c = CHR '':'' \<and> length (takeWhile is_digit (take 2 r)) = 2
                         then Some (take 2 r) else None);
             r2 = (case mins of None \<Rightarrow> r1 | Some x \<Rightarrow> drop 3 r1);
             r3 = dropWhile is_space r2;
             ampm = (if liti ''am'' r3 \<noteq> None then Some ''am''
                     else if liti ''pm'' r3 \<noteq> None then Some ''pm'' else None)
         in Some (h, mins, ampm)))"

definition msPerMinute :: int where "msPerMinute = 60000"
definition msPerHour :: int where "msPerHour = 3600000"
definition msPerDay :: int where "msPerDay = 86400000"

text \<open>
  Dates are milliseconds since the epoch. The local time zone is a fixed offset \<open>tz\<close>
  (milliseconds east of UTC); daylight-saving changes are not modelled.
  \<open>d.setSeconds(0, 0)\<close>, \<open>d.setHours(h, min, 0, 0)\<close> and \<open>d.setDate(d.getDate() + 1)\<close>:
\<close>

definition setSeconds00 :: "int \<Rightarrow> int \<Rightarrow> int" where
  "setSeconds00 tz d = d - (d + tz) mod msPerMinute"

definition setHours :: "int \<Rightarrow> int \<Rightarrow> nat \<Rightarrow> nat \<Rightarrow> int" where
  "setHours tz d h mi =
     ((d + tz) div msPerDay) * msPerDay + int h * msPerHour + int mi * msPerMinute - tz"

definition nextDate :: "int \<Rightarrow> int" where
  "nextDate d = d + msPerDay"

text \<open>
  \<open>extractPickupTime\<close> reads the clock twice: \<open>t_new\<close> is \<open>new Date()\<close> and \<open>t_now\<close> the
  later \<open>Date.now()\<close>.
\<close>

definition extractPickupTime :: "int \<Rightarrow> int \<Rightarrow> int \<Rightarrow> string \<Rightarrow> int option" where
  "extractPickupTime tz t_new t_now s =
     (case matches re_time s of
        None \<Rightarrow> None
      | Some (hs, mins, ampm) \<Rightarrow>
          (let h0 = parseInt hs;
               mi = (case mins of Some x \<Rightarrow> parseInt x | None \<Rightarrow> 0);
               h1 = (if ampm = Some ''pm'' \<and> h0 < 12 then h0 + 12 else h0);
               h2 = (if ampm = Some ''am'' \<and> h1 = 12 then 0 else h1);
               d = setHours tz (setSeconds00 tz t_new) h2 mi
           in Some (if d < t_now then nextDate d else d)))"

section \<open>Orders and the order store\<close>

text \<open>
  Modelled from the spec: the Order entity of the storage collaborator
  (\<open>models/Order\<close> is imported by the controller and is not among the sources). The fields
  are those of the data model: \<open>trackingId\<close>, the optional \<open>customerName\<close> and \<open>address\<close>,
  \<open>item\<close>, \<open>qty\<close>, \<open>status\<close>, the optional \<open>pickupTime\<close> and \<open>assignedTo\<close>, \<open>amount\<close>,
  \<open>expenses\<close>, the creator recorded in \<open>metadata\<close> and the system-managed \<open>createdAt\<close>.
  Numbers are rationals, dates are milliseconds since the epoch. The store keeps the fields
  it is handed as they are.
\<close>

record order =
  trackingId :: string
  customerName :: "string option"
  address :: "string option"
  item :: string
  qty :: rat
  status :: string
  pickupTime :: "int option"
  assignedTo :: "string option"
  amount :: rat
  expenses :: rat
  createdBy :: string
  createdAt :: int

text \<open>
  Modelled from the spec: the store is the collection in its natural (insertion) order, and
  the storage id of a document is its position in the collection. The operations are the
  ones the controller calls: \<open>findOne\<close>, \<open>findOneAndUpdate\<close> and \<open>findByIdAndUpdate\<close> with
  \<open>{new: true}\<close>, \<open>findByIdAndDelete\<close>, \<open>save\<close> and \<open>find\<close> with \<open>sort\<close> and \<open>limit\<close>.
\<close>

fun find_from :: "nat \<Rightarrow> (order \<Rightarrow> bool) \<Rightarrow> order list \<Rightarrow> (nat \<times> order) option" where
  "find_from i P [] = None"
| "find_from i P (d # ds) = (if P d then Some (i, d) else find_from (Suc i) P ds)"

definition findOne :: "(order \<Rightarrow> bool) \<Rightarrow> order list \<Rightarrow> (nat \<times> order) option" where
  "findOne P ds = find_from 0 P ds"

definition findByIdAndUpdate :: "nat \<Rightarrow> (order \<Rightarrow> order) \<Rightarrow> order list \<Rightarrow> order option \<times> order list" where
  "findByIdAndUpdate i f ds =
     (if i < length ds then (Some (f (ds ! i)), ds[i := f (ds ! i)]) else (None, ds))"

definition findOneAndUpdate :: "(order \<Rightarrow> bool) \<Rightarrow> (order \<Rightarrow> order) \<Rightarrow> order list \<Rightarrow> order option \<times> order list" where
  "findOneAndUpdate P f ds =
     (case findOne P ds of
        None \<Rightarrow> (None, ds)
      | Some (i, d) \<Rightarrow> findByIdAndUpdate i f ds)"

definition findByIdAndDelete :: "nat \<Rightarrow> order list \<Rightarrow> order list" where
  "findByIdAndDelete i ds = take i ds @ drop (Suc i) ds"

definition save :: "order \<Rightarrow> order list \<Rightarrow> order list" where
  "save d ds = ds @ [d]"

text \<open>\<open>Order.find({}).sort({createdAt: -1}).limit(10)\<close>\<close>

definition find_recent :: "order list \<Rightarrow> order list" where
  "find_recent ds = take 10 (sort_key (\<lambda>d. - createdAt d) ds)"

text \<open>
  \<open>Order.findOne({status: {$in: [...]}}).sort({pickupTime: 1, createdAt: 1})\<close>: ascending by
  \<open>pickupTime\<close> (an absent one first), then by \<open>createdAt\<close>.
\<close>

definition find_next :: "order list \<Rightarrow> order option" where
  "find_next ds =
     (case sort_key pickupTime (sort_key createdAt
             (filter (\<lambda>d. status d \<in> set [''created'', ''assigned'', ''pending'']) ds)) of
        [] \<Rightarrow> None
      | d # rest \<Rightarrow> Some d)"

section \<open>Structured extraction\<close>

text \<open>
  The object that \<open>JSON.parse\<close> returns for the extractor's answer, with the field types the
  system prompt asks for: strings or null (\<open>None\<close> is null or an absent key), numbers, and
  for \<open>pickupTime\<close> the date that \<open>new Date(parsed.pickupTime)\<close> denotes.
\<close>

record llm_json =
  j_customerName :: "string option"
  j_address :: "string option"
  j_item :: "string option"
  j_qty :: "rat option"
  j_pickupTime :: "int option"
  j_assignedTo :: "string option"
  j_status :: "string option"
  j_trackingId :: "string option"
  j_amount :: "rat option"
  j_expenses :: "rat option"

text \<open>
  What the extraction call does: the request is rejected (the call throws), the answer
  cannot be parsed (\<open>JSON.parse\<close> throws), or it parses to an object.
\<close>

datatype extraction = Rejected | Unparsable | Object llm_json

record extracted =
  e_customerName :: "string option"
  e_address :: "string option"
  e_item :: string
  e_qty :: rat
  e_pickupTime :: "int option"
  e_assignedTo :: "string option"
  e_status :: string
  e_trackingId :: "string option"
  e_amount :: rat
  e_expenses :: rat

text \<open>\<open>x || null\<close> on an optional string: the empty string is falsy.\<close>

definition str_or_null :: "string option \<Rightarrow> string option" where
  "str_or_null x = (case x of None \<Rightarrow> None | Some s \<Rightarrow> if s = [] then None else Some s)"

text \<open>\<open>x || d\<close> on an optional string.\<close>

definition str_or :: "string option \<Rightarrow> string \<Rightarrow> string" where
  "str_or x d = (case str_or_null x of None \<Rightarrow> d | Some s \<Rightarrow> s)"

text \<open>\<open>x ? Number(x) : d\<close> on an optional number: zero is falsy.\<close>

definition num_or :: "rat option \<Rightarrow> rat \<Rightarrow> rat" where
  "num_or x d = (case x of None \<Rightarrow> d | Some q \<Rightarrow> if q = 0 then d else q)"

text \<open>The object returned when no backend is configured, and again in the \<open>catch\<close> block.\<close>

definition fallback_fields :: "string \<Rightarrow> extracted" where
  "fallback_fields txt =
     \<lparr>e_customerName = None, e_address = None, e_item = txt, e_qty = 1,
      e_pickupTime = None, e_assignedTo = None, e_status = ''created'',
      e_trackingId = None, e_amount = 200, e_expenses = 50\<rparr>"

definition extractOrderFieldsWithLLM :: "bool \<Rightarrow> (string \<Rightarrow> extraction) \<Rightarrow> string \<Rightarrow> extracted" where
  "extractOrderFieldsWithLLM groq_set call txt =
     (if \<not> groq_set then fallback_fields txt
      else
        (case call txt of
           Rejected \<Rightarrow> fallback_fields txt
         | Unparsable \<Rightarrow> fallback_fields txt
         | Object p \<Rightarrow>
             \<lparr>e_customerName = str_or_null (j_customerName p),
              e_address = str_or_null (j_address p),
              e_item = str_or (j_item p) txt,
              e_qty = num_or (j_qty p) 1,
              e_pickupTime = j_pickupTime p,
              e_assignedTo = str_or_null (j_assignedTo p),
              e_status = str_or (j_status p) ''created'',
              e_trackingId = str_or_null (j_trackingId p),
              e_amount = num_or (j_amount p) 200,
              e_expenses = num_or (j_expenses p) 50\<rparr>))"

section \<open>The controller\<close>

record msg =
  role :: string
  content :: string

text \<open>The outcome of the chat completion: the call throws, or it returns a message content.\<close>

datatype completion = ChatFailed | ChatContent string

text \<open>
  Everything a request takes from outside the controller: whether a backend is configured,
  what the two backends answer, the clock readings, the random text, the time zone, how
  numbers and dates are printed, and the replacement with a regular expression built from
  user text (\<open>None\<close> when its construction throws).
\<close>

record runtime =
  groq :: bool
  llm_extract :: "string \<Rightarrow> extraction"
  llm_chat :: "msg list \<Rightarrow> completion"
  date_now :: int
  random36 :: string
  saved_at :: int
  clock_new :: int
  clock_now :: int
  tz_offset :: int
  number_text :: "rat \<Rightarrow> string"
  locale_text :: "int \<Rightarrow> string"
  replace_word :: "string \<Rightarrow> string \<Rightarrow> string option"

record state =
  orders :: "order list"
  conversationHistory :: "string \<Rightarrow> msg list option"

text \<open>The \<open>order\<close> key of a response: absent, null, a document, or \<open>{trackingId}\<close> alone.\<close>

datatype order_out = NoOrder | NullOrder | OrderDoc order | OrderId string

record response =
  http :: nat
  reply :: string
  action :: "string option"
  order_of :: order_out
  orders_of :: "order list option"
  trackingId_of :: "string option"

definition answer :: "string \<Rightarrow> string \<Rightarrow> response" where
  "answer rep act =
     \<lparr>http = 200, reply = rep, action = Some act, order_of = NoOrder,
      orders_of = None, trackingId_of = None\<rparr>"

text \<open>\<open>history.push({role: "assistant", content: reply}); return res.json(...)\<close>\<close>

definition finish :: "state \<Rightarrow> string \<Rightarrow> msg list \<Rightarrow> order list \<Rightarrow> response \<Rightarrow> response \<times> state" where
  "finish s user h ds r =
     (r, \<lparr>orders = ds,
          conversationHistory =
            (conversationHistory s)(user \<mapsto> h @ [\<lparr>role = ''assistant'', content = reply r\<rparr>])\<rparr>)"

text \<open>The \<open>catch\<close> block of the controller: HTTP 500, after the user message was recorded.\<close>

definition internal_error :: "state \<Rightarrow> string \<Rightarrow> msg list \<Rightarrow> response \<times> state" where
  "internal_error s user h =
     (\<lparr>http = 500, reply = ''Internal error'', action = None, order_of = NoOrder,
       orders_of = None, trackingId_of = None\<rparr>,
      s\<lparr>conversationHistory := (conversationHistory s)(user \<mapsto> h)\<rparr>)"

definition newline :: string where
  "newline = [CHR 0x0A]"

subsection \<open>create_order\<close>

text \<open>The document \<open>new Order({...})\<close> of the create branch.\<close>

definition new_order :: "runtime \<Rightarrow> string \<Rightarrow> string \<Rightarrow> order" where
  "new_order rt txt user =
     (let ex = extractOrderFieldsWithLLM (groq rt) (llm_extract rt) txt;
          tid = makeTrackingId (date_now rt) (random36 rt)
      in \<lparr>trackingId = tid,
          customerName = str_or_null (e_customerName ex),
          address = str_or_null (e_address ex),
          item = e_item ex,
          qty = (if e_qty ex = 0 then 1 else e_qty ex),
          status = ''created'',
          pickupTime = e_pickupTime ex,
          assignedTo = str_or_null (e_assignedTo ex),
          amount = (if e_amount ex = 0 then 200 else e_amount ex),
          expenses = (if e_expenses ex = 0 then 50 else e_expenses ex),
          createdBy = user,
          createdAt = saved_at rt\<rparr>)"

definition create_order :: "runtime \<Rightarrow> string \<Rightarrow> string \<Rightarrow> msg list \<Rightarrow> state \<Rightarrow> response \<times> state" where
  "create_order rt txt user h s =
     (let d = new_order rt txt user
      in finish s user h (save d (orders s))
           ((answer (''Order created. Tracking ID '' @ trackingId d @ ''.'') ''created_order'')
              \<lparr>order_of := OrderDoc d\<rparr>))"

subsection \<open>track_order\<close>

definition track_order :: "string \<Rightarrow> string \<Rightarrow> msg list \<Rightarrow> state \<Rightarrow> response \<times> state" where
  "track_order tid user h s =
     (case findOne (\<lambda>d. trackingId d = tid) (orders s) of
        None \<Rightarrow>
          finish s user h (orders s)
            ((answer (''I couldn'' @ [CHR 0x27] @ ''t find order '' @ tid @ ''.'') ''order_not_found'')
               \<lparr>trackingId_of := Some tid\<rparr>)
      | Some (i, d) \<Rightarrow>
          finish s user h (orders s)
            ((answer
                (''Here are the details for '' @ trackingId d @ '': '' @ newline @
                 ''- Customer: '' @ str_or (customerName d) ''N/A'' @ '' '' @ newline @
                 ''- Items: '' @ str_or (Some (item d)) ''N/A'' @ '' '' @ newline @
                 ''- Address: '' @ str_or (address d) ''N/A'' @ '' '' @ newline @
                 ''- Status: '' @ status d)
                ''track_order'')
               \<lparr>order_of := OrderDoc d\<rparr>))"

subsection \<open>next_pickup\<close>

definition next_pickup :: "runtime \<Rightarrow> string \<Rightarrow> msg list \<Rightarrow> state \<Rightarrow> response \<times> state" where
  "next_pickup rt user h s =
     (case find_next (orders s) of
        None \<Rightarrow> finish s user h (orders s) (answer ''You have no upcoming pickups.'' ''no_pickups'')
      | Some d \<Rightarrow>
          finish s user h (orders s)
            ((answer
                (''Next pickup: '' @ item d @ '' ('' @ number_text rt (qty d) @ '') '' @
                 [CHR 0xE2, CHR 0x80, CHR 0x94] @ '' '' @ str_or (address d) ''address not set'' @
                 ''. Tracking ID '' @ trackingId d @ ''.'')
                ''next_pickup'')
               \<lparr>order_of := OrderDoc d\<rparr>))"

subsection \<open>list_orders\<close>

definition list_orders :: "string \<Rightarrow> msg list \<Rightarrow> state \<Rightarrow> response \<times> state" where
  "list_orders user h s =
     (let found = find_recent (orders s) in
      finish s user h (orders s)
        ((answer
            (if found \<noteq> []
             then ''Showing your '' @ toStringRadix 10 (int (length found)) @ '' most recent orders.''
             else ''No orders found.'')
            ''list_orders'')
           \<lparr>orders_of := Some found\<rparr>))"

subsection \<open>cancel_order\<close>

text \<open>\<open>/cancel order ([A-Za-z0-9\-]+)/i\<close>, yielding the capture group.\<close>

definition re_cancel_id :: "char option \<Rightarrow> string \<Rightarrow> string option" where
  "re_cancel_id prev s = Option.bind (liti ''cancel order '' s) (run1 is_idchar)"

definition cancel_order :: "string \<Rightarrow> string \<Rightarrow> msg list \<Rightarrow> state \<Rightarrow> response \<times> state" where
  "cancel_order txt user h s =
     (case matches re_cancel_id txt of
        Some m1 \<Rightarrow>
          (case findOneAndUpdate (\<lambda>d. trackingId d = toUpperCase m1)
                  (\<lambda>d. d\<lparr>status := ''cancelled''\<rparr>) (orders s) of
             (Some d, ds) \<Rightarrow>
               finish s user h ds
                 ((answer (''Order '' @ trackingId d @ '' cancelled.'') ''cancel_order'')
                    \<lparr>order_of := OrderDoc d\<rparr>)
           | (None, ds) \<Rightarrow>
               finish s user h ds
                 ((answer (''Couldn'' @ [CHR 0x27] @ ''t find order '' @ m1 @ ''.'') ''cancel_order'')
                    \<lparr>order_of := NullOrder\<rparr>))
      | None \<Rightarrow>
          finish s user h (orders s)
            (answer
               (''Please provide the order ID to cancel (e.g., '' @ [CHR 0x27] @
                ''Cancel order ORD-ABC123'' @ [CHR 0x27] @ '').'')
               ''ask_for_order_id''))"

subsection \<open>update_address\<close>

text \<open>\<open>/ORD-[A-Za-z0-9]+/i\<close>, yielding the matched text.\<close>

definition re_ord_plain :: "char option \<Rightarrow> string \<Rightarrow> string option" where
  "re_ord_plain prev s =
     Option.bind (liti ''ORD-'' s)
       (\<lambda>r. map_option (\<lambda>run. take 4 s @ run) (run1 is_alnum r))"

text \<open>\<open>if (a?.toLowerCase().startsWith(p)) a = a.slice(p.length).trim()\<close>\<close>

definition strip_lower :: "string \<Rightarrow> string option \<Rightarrow> string option" where
  "strip_lower p a =
     (case a of
        None \<Rightarrow> None
      | Some x \<Rightarrow> if lit p (toLowerCase x) \<noteq> None then Some (trim (drop (length p) x)) else Some x)"

text \<open>\<open>if (a?.startsWith(p)) a = a.slice(p.length).trim()\<close>\<close>

definition strip_exact :: "string \<Rightarrow> string option \<Rightarrow> string option" where
  "strip_exact p a =
     (case a of
        None \<Rightarrow> None
      | Some x \<Rightarrow> if lit p x \<noteq> None then Some (trim (drop (length p) x)) else Some x)"

definition update_address :: "string \<Rightarrow> string \<Rightarrow> msg list \<Rightarrow> state \<Rightarrow> response \<times> state" where
  "update_address txt user h s =
     (case matches re_ord_plain txt of
        None \<Rightarrow>
          finish s user h (orders s)
            (answer
               (''Please provide the order ID to update the address (e.g., '' @ [CHR 0x27] @
                ''Update address of order ORD-ABC123 Pune'' @ [CHR 0x27] @ '').'')
               ''ask_for_order_id'')
      | Some m0 \<Rightarrow>
          (let tid = toUpperCase m0;
               a0 = map_option trim (nth_opt (split (sep_lit tid) txt) 1);
               a1 = strip_lower ''to '' a0;
               a2 = strip_lower ''is '' a1;
               a3 = strip_exact '':'' a2
           in
             (case str_or_null a3 of
                None \<Rightarrow>
                  finish s user h (orders s)
                    ((answer
                        (''Please provide the new address after the order ID (e.g., '' @ [CHR 0x27] @
                         ''Update address of order '' @ tid @ '' Pune, Maharashtra'' @ [CHR 0x27] @ '').'')
                        ''ask_for_address'')
                       \<lparr>trackingId_of := Some tid\<rparr>)
              | Some addr \<Rightarrow>
                  (case findOneAndUpdate (\<lambda>d. trackingId d = tid)
                          (\<lambda>d. d\<lparr>address := Some addr\<rparr>) (orders s) of
                     (None, ds) \<Rightarrow>
                       finish s user h ds
                         ((answer (''Sorry, I couldn'' @ [CHR 0x27] @ ''t find order '' @ tid @ ''.'')
                             ''order_not_found'')
                            \<lparr>trackingId_of := Some tid\<rparr>)
                   | (Some d, ds) \<Rightarrow>
                       finish s user h ds
                         ((answer
                             (''The address for order '' @ tid @ '' has been updated to: '' @
                              (case address d of Some a \<Rightarrow> a | None \<Rightarrow> ''undefined''))
                             ''update_address'')
                            \<lparr>order_of := OrderDoc d\<rparr>)))))"

subsection \<open>update_order\<close>

text \<open>\<open>/pick\s?up/i\<close>\<close>

definition re_pick_up :: "char option \<Rightarrow> string \<Rightarrow> string option" where
  "re_pick_up prev s =
     Option.bind (liti ''pick'' s)
       (\<lambda>r. orelse
          (case r of [] \<Rightarrow> None | c # r' \<Rightarrow> if is_space c then liti ''up'' r' else None)
          (liti ''up'' r))"

text \<open>\<open>/,\s*,/g\<close>\<close>

definition re_double_comma :: "char option \<Rightarrow> string \<Rightarrow> string option" where
  "re_double_comma prev s = Option.bind (lit '','' s) (\<lambda>r. lit '','' (dropWhile is_space r))"

text \<open>\<open>/^,\s*|\s*,\s*$/g\<close>: \<open>^\<close> holds where no character precedes, \<open>$\<close> at the end of the input.\<close>

definition re_edge_comma :: "char option \<Rightarrow> string \<Rightarrow> string option" where
  "re_edge_comma prev s =
     orelse
       (if prev = None then map_option (dropWhile is_space) (lit '','' s) else None)
       (Option.bind (lit '','' (dropWhile is_space s))
          (\<lambda>r. if dropWhile is_space r = [] then Some [] else None))"

text \<open>The keys of the \<open>updates\<close> object: \<open>None\<close> is a key that was not set.\<close>

record updates =
  u_status :: "string option"
  u_pickupTime :: "int option"
  u_assignedTo :: "string option"
  u_item :: "string option"

definition apply_updates :: "updates \<Rightarrow> order \<Rightarrow> order" where
  "apply_updates u d =
     d\<lparr>status := (case u_status u of Some x \<Rightarrow> x | None \<Rightarrow> status d),
       pickupTime := (case u_pickupTime u of Some t \<Rightarrow> Some t | None \<Rightarrow> pickupTime d),
       assignedTo := (case u_assignedTo u of Some a \<Rightarrow> Some a | None \<Rightarrow> assignedTo d),
       item := (case u_item u of Some x \<Rightarrow> x | None \<Rightarrow> item d)\<rparr>"

text \<open>\<open>xs[1] ?? ""\<close> and \<open>xs[0]\<close> of the result of a split.\<close>

definition second_or_empty :: "string list \<Rightarrow> string" where
  "second_or_empty xs = (case nth_opt xs 1 of Some x \<Rightarrow> x | None \<Rightarrow> [])"

definition first_piece :: "string list \<Rightarrow> string" where
  "first_piece xs = (case xs of [] \<Rightarrow> [] | x # rest \<Rightarrow> x)"

text \<open>\<open>s.split(/(?:,| and )/i).map(trim).filter(Boolean)\<close>\<close>

definition item_names :: "string \<Rightarrow> string list" where
  "item_names s = filter (\<lambda>x. x \<noteq> []) (map trim (split (alts_i ['','', '' and '']) s))"

text \<open>The block under \<open>// Add items\<close>: the new value of \<open>updates.item\<close>, if it sets one.\<close>

definition add_items :: "string \<Rightarrow> order \<Rightarrow> string option" where
  "add_items txt d =
     (if test (lit_b True ''add'') txt then
        (let part = second_or_empty (split (alts_i [''add'']) txt);
             addText = first_piece (split (alts_i [''remove'', ''status'', ''assign'', ''pickup'']) part);
             items = item_names addText
         in if items \<noteq> []
            then Some (join '', '' (filter (\<lambda>x. x \<noteq> []) [item d, join '', '' items]))
            else None)
      else None)"

text \<open>
  The loop \<open>toRemove.forEach(...)\<close>: each word is removed with the regular expression built
  from it; \<open>None\<close> when a construction throws.
\<close>

fun remove_words :: "(string \<Rightarrow> string \<Rightarrow> string option) \<Rightarrow> string list \<Rightarrow> string \<Rightarrow> string option" where
  "remove_words f [] s = Some s"
| "remove_words f (w # ws) s = (case f w s of None \<Rightarrow> None | Some s' \<Rightarrow> remove_words f ws s')"

datatype 'a attempt = Threw | Done 'a

text \<open>The block under \<open>// Remove items\<close>: the new value of \<open>updates.item\<close>, if it sets one.\<close>

definition remove_items :: "runtime \<Rightarrow> string \<Rightarrow> order \<Rightarrow> string option attempt" where
  "remove_items rt txt d =
     (if test (lit_b True ''remove'') txt \<and> item d \<noteq> [] then
        (let part = second_or_empty (split (alts_i [''remove'']) txt);
             removeText = first_piece (split (alts_i [''add'', ''status'', ''assign'', ''pickup'']) part);
             toRemove = item_names removeText
         in if toRemove \<noteq> [] then
              (case remove_words (replace_word rt) toRemove (item d) of
                 None \<Rightarrow> Threw
               | Some newItem \<Rightarrow>
                   Done (Some (trim (replace_all re_edge_comma []
                                      (replace_all re_double_comma '', '' newItem)))))
            else Done None)
      else Done None)"

definition update_order :: "runtime \<Rightarrow> string \<Rightarrow> string \<Rightarrow> msg list \<Rightarrow> state \<Rightarrow> response \<times> state" where
  "update_order rt txt user h s =
     (case extractTrackingIdFrom txt of
        None \<Rightarrow>
          finish s user h (orders s)
            (answer ''Please provide a valid order ID (e.g., ORD-ABC123) to update.''
               ''ask_for_order_id'')
      | Some tid \<Rightarrow>
          (case findOne (\<lambda>d. trackingId d = tid) (orders s) of
             None \<Rightarrow>
               finish s user h (orders s)
                 ((answer (''Sorry, I couldn'' @ [CHR 0x27] @ ''t find order '' @ tid @ ''.'')
                     ''order_not_found'')
                    \<lparr>trackingId_of := Some tid\<rparr>)
           | Some (i, d) \<Rightarrow>
               (let st = extractStatus txt;
                    pk = (if test re_pick_up txt
                          then extractPickupTime (tz_offset rt) (clock_new rt) (clock_now rt) txt
                          else None);
                    asg = str_or_null (extractAssignee txt);
                    added = add_items txt d
                in
                  (case remove_items rt txt d of
                     Threw \<Rightarrow> internal_error s user h
                   | Done removed \<Rightarrow>
                       (let u = \<lparr>u_status = st, u_pickupTime = pk, u_assignedTo = asg,
                                 u_item = orelse removed added\<rparr>
                        in
                          if u_status u = None \<and> u_pickupTime u = None \<and>
                             u_assignedTo u = None \<and> u_item u = None
                          then
                            finish s user h (orders s)
                              ((answer
                                  ''What would you like to update? (status, pickup time, assignee, items)''
                                  ''update_order'')
                                 \<lparr>order_of := OrderDoc d\<rparr>)
                          else
                            (case findByIdAndUpdate i (apply_updates u) (orders s) of
                               (None, ds) \<Rightarrow>
                                 finish s user h ds
                                   ((answer
                                       (''Order '' @ tid @ '' updated.'' @ newline @
                                        ''- Status: '' @ status d @ newline @
                                        ''- Pickup time: not set'' @ newline @
                                        ''- Assigned to: not set'' @ newline @
                                        ''- Items: N/A'')
                                       ''update_order'')
                                      \<lparr>order_of := NullOrder\<rparr>)
                             | (Some d', ds) \<Rightarrow>
                                 finish s user h ds
                                   ((answer
                                       (''Order '' @ tid @ '' updated.'' @ newline @
                                        ''- Status: '' @ status d' @ newline @
                                        ''- Pickup time: '' @
                                          (case pickupTime d' of
                                             Some t \<Rightarrow> locale_text rt t
                                           | None \<Rightarrow> ''not set'') @ newline @
                                        ''- Assigned to: '' @
                                          (case assignedTo d' of
                                             Some a \<Rightarrow> a
                                           | None \<Rightarrow> ''not set'') @ newline @
                                        ''- Items: '' @ item d')
                                       ''update_order'')
                                      \<lparr>order_of := OrderDoc d'\<rparr>)))))))"

subsection \<open>delete_order\<close>

definition delete_order :: "string \<Rightarrow> string \<Rightarrow> msg list \<Rightarrow> state \<Rightarrow> response \<times> state" where
  "delete_order txt user h s =
     (case extractTrackingIdFrom txt of
        None \<Rightarrow>
          finish s user h (orders s)
            (answer
               (''Please provide the order ID to delete (e.g., '' @ [CHR 0x27] @
                ''delete order ORD-ABC123'' @ [CHR 0x27] @ '').'')
               ''ask_for_order_id'')
      | Some tid \<Rightarrow>
          (case findOne (\<lambda>d. trackingId d = tid) (orders s) of
             None \<Rightarrow>
               finish s user h (orders s)
                 ((answer (''I couldn'' @ [CHR 0x27] @ ''t find order '' @ tid @ ''.'')
                     ''order_not_found'')
                    \<lparr>trackingId_of := Some tid\<rparr>)
           | Some (i, d) \<Rightarrow>
               finish s user h (findByIdAndDelete i (orders s))
                 ((answer (''Order '' @ tid @ '' has been deleted.'') ''delete_order'')
                    \<lparr>order_of := OrderId tid\<rparr>)))"

subsection \<open>The free-text fallback\<close>

text \<open>\<open>history.slice(-MAX)\<close> with \<open>MAX = 8\<close>.\<close>

definition last_messages :: "msg list \<Rightarrow> msg list" where
  "last_messages h = drop (length h - 8) h"

definition general :: "runtime \<Rightarrow> string \<Rightarrow> msg list \<Rightarrow> state \<Rightarrow> response \<times> state" where
  "general rt user h s =
     (if groq rt then
        (case llm_chat rt (last_messages h) of
           ChatFailed \<Rightarrow> internal_error s user h
         | ChatContent c \<Rightarrow>
             finish s user h (orders s)
               (answer (if c = [] then ''Sorry, I didn'' @ [CHR 0x27] @ ''t get that.'' else c)
                  ''llm_reply''))
      else
        finish s user h (orders s)
          (answer (''Sorry, I couldn'' @ [CHR 0x27] @ ''t process that right now.'') ''fallback''))"

subsection \<open>aiReply\<close>

definition preamble :: msg where
  "preamble =
     \<lparr>role = ''system'',
      content = ''You are Porter Saathi, a concise task-focused assistant for deliveries.''\<rparr>"

text \<open>\<open>const { text, userId = "demo-user" } = req.body\<close>\<close>

definition user_of :: "string option \<Rightarrow> string" where
  "user_of uid = (case uid of None \<Rightarrow> ''demo-user'' | Some u \<Rightarrow> u)"

text \<open>The user's history, created with the preamble when absent, after the user message is pushed.\<close>

definition pushed :: "state \<Rightarrow> string \<Rightarrow> string \<Rightarrow> msg list" where
  "pushed s user txt =
     (case conversationHistory s user of None \<Rightarrow> [preamble] | Some h \<Rightarrow> h) @
     [\<lparr>role = ''user'', content = txt\<rparr>]"

text \<open>
  The request body is the text and the optional \<open>userId\<close>. The result is the response and
  the state after the request.
\<close>

definition aiReply :: "runtime \<Rightarrow> string \<Rightarrow> string option \<Rightarrow> state \<Rightarrow> response \<times> state" where
  "aiReply rt txt uid s =
     (let user = user_of uid;
          h = pushed s user txt;
          p = parseIntent txt
      in
        if intent p = ''create_order'' then create_order rt txt user h s
        else
          (case (if intent p = ''track_order'' then str_or_null (captured p) else None) of
             Some tid \<Rightarrow> track_order tid user h s
           | None \<Rightarrow>
               if intent p = ''next_pickup'' then next_pickup rt user h s
               else if intent p = ''list_orders'' then list_orders user h s
               else if intent p = ''cancel_order'' then cancel_order txt user h s
               else if intent p = ''update_address'' then update_address txt user h s
               else if intent p = ''update_order'' then update_order rt txt user h s
               else if intent p = ''delete_order'' then delete_order txt user h s
               else general rt user h s))"

section \<open>Notions used to state the properties\<close>

text \<open>
  The classifier as the specification words it: an ordered table of pattern rules, each a
  name and a test on the lower-cased input, of which the first that matches is returned,
  and \<open>general\<close> when none matches.
\<close>

fun first_match :: "(string \<times> (string \<Rightarrow> bool)) list \<Rightarrow> string \<Rightarrow> string" where
  "first_match [] t = ''general''"
| "first_match ((name, rule) # rules) t = (if rule t then name else first_match rules t)"

definition intent_rules :: "(string \<times> (string \<Rightarrow> bool)) list" where
  "intent_rules =
     [(''create_order'', test re_create),
      (''track_order'', \<lambda>t. orelse (matches re_track t) (matches re_where t) \<noteq> None),
      (''next_pickup'', test re_next),
      (''list_orders'', test re_list),
      (''cancel_order'', test re_cancel),
      (''delete_order'', test re_delete),
      (''update_address'', test re_address),
      (''update_order'', test re_update)]"

text \<open>The local calendar day and the local time of day of an instant.\<close>

definition local_day :: "int \<Rightarrow> int \<Rightarrow> int" where
  "local_day tz t = (t + tz) div msPerDay"

definition time_of_day :: "int \<Rightarrow> int \<Rightarrow> int" where
  "time_of_day tz t = (t + tz) mod msPerDay"

text \<open>
  A time of day as a text gives it, \<open>H[:MM][am|pm]\<close>. The hour of the day that an hour and
  an optional \<open>am\<close> or \<open>pm\<close> denote: \<open>pm\<close> adds 12 to an hour below 12, and 12 \<open>am\<close> is 0. The
  minutes are 0 when the text gives none.
\<close>

definition hour24 :: "nat \<Rightarrow> string option \<Rightarrow> nat" where
  "hour24 h ap =
     (if ap = Some ''pm'' \<and> h < 12 then h + 12
      else if ap = Some ''am'' \<and> h = 12 then 0 else h)"

definition minutes_of :: "string option \<Rightarrow> nat" where
  "minutes_of mins = (case mins of None \<Rightarrow> 0 | Some x \<Rightarrow> parseInt x)"

definition clock_ms :: "string \<Rightarrow> string option \<Rightarrow> string option \<Rightarrow> int" where
  "clock_ms hs mins ap =
     int (hour24 (parseInt hs) ap) * msPerHour + int (minutes_of mins) * msPerMinute"

text \<open>
  How a text is read as a time of day. The hour \<open>hs\<close> is the first digit of the text, with
  the digit after it when there is one. The minutes are the two digits after a colon that
  follows the hour directly. \<open>am\<close> or \<open>pm\<close>, in any case, is read after that and any white
  space.
\<close>

definition two_digits :: "string \<Rightarrow> bool" where
  "two_digits x = (length x = 2 \<and> list_all is_digit x)"

definition tail_reading :: "string \<Rightarrow> string option \<Rightarrow> bool" where
  "tail_reading t ap =
     (case ap of
        Some w0 \<Rightarrow>
          (w0 = ''am'' \<or> w0 = ''pm'') \<and>
          (\<exists>sp w t'. t = sp @ w @ t' \<and> list_all is_space sp \<and> toLowerCase w = w0)
      | None \<Rightarrow>
          \<not> (\<exists>sp w t'. t = sp @ w @ t' \<and> list_all is_space sp \<and>
                 (toLowerCase w = ''am'' \<or> toLowerCase w = ''pm'')))"

definition after_hour :: "string \<Rightarrow> string option \<Rightarrow> string option \<Rightarrow> bool" where
  "after_hour b mins ap =
     (case mins of
        Some x \<Rightarrow> two_digits x \<and> (\<exists>b'. b = CHR '':'' # x @ b' \<and> tail_reading b' ap)
      | None \<Rightarrow> \<not> (\<exists>x b'. b = CHR '':'' # x @ b' \<and> two_digits x) \<and> tail_reading b ap)"

definition time_reading :: "string \<Rightarrow> string \<Rightarrow> string option \<Rightarrow> string option \<Rightarrow> bool" where
  "time_reading s hs mins ap =
     (\<exists>a b. s = a @ hs @ b \<and> list_all (\<lambda>c. \<not> is_digit c) a \<and>
            hs \<noteq> [] \<and> list_all is_digit hs \<and> length hs \<le> 2 \<and>
            \<not> (length hs < 2 \<and> b \<noteq> [] \<and> is_digit (hd b)) \<and>
            after_hour b mins ap)"

text \<open>
  The shapes \<open>^ORD-[A-Z0-9]+$\<close> and \<open>^ORD-[A-Za-z0-9]+$\<close> of a tracking id.
\<close>

definition upper_id :: "string \<Rightarrow> bool" where
  "upper_id t =
     (take 4 t = ''ORD-'' \<and> drop 4 t \<noteq> [] \<and>
      list_all (\<lambda>c. is_upper c \<or> is_digit c) (drop 4 t))"

definition alnum_id :: "string \<Rightarrow> bool" where
  "alnum_id t = (take 4 t = ''ORD-'' \<and> drop 4 t \<noteq> [] \<and> list_all is_alnum (drop 4 t))"

text \<open>
  A token \<open>ORD-[alnum]+\<close>, in any case, standing as a whole word in a text between \<open>a\<close>
  and \<open>b\<close>: no word character directly before it and none directly after it.
\<close>

definition ord_token :: "string \<Rightarrow> string \<Rightarrow> string \<Rightarrow> bool" where
  "ord_token a tok b =
     (toUpperCase (take 4 tok) = ''ORD-'' \<and> drop 4 tok \<noteq> [] \<and>
      list_all is_alnum (drop 4 tok) \<and>
      \<not> (a \<noteq> [] \<and> is_word (last a)) \<and> \<not> (b \<noteq> [] \<and> is_word (hd b)))"

text \<open>The quantity that the extraction backend supplied for a text, if any.\<close>

definition supplied_qty :: "runtime \<Rightarrow> string \<Rightarrow> rat option" where
  "supplied_qty rt txt =
     (if groq rt then (case llm_extract rt txt of Object p \<Rightarrow> j_qty p | Rejected \<Rightarrow> None | Unparsable \<Rightarrow> None)
      else None)"

text \<open>
  A text holds an id token after "cancel order" when it contains \<open>cancel order\<close> and a space
  (in any case) directly followed by a character of \<open>[A-Za-z0-9\-]\<close>.
\<close>

definition has_cancel_id :: "string \<Rightarrow> bool" where
  "has_cancel_id t =
     (\<exists>a w c b. t = a @ w @ c # b \<and> toUpperCase w = ''CANCEL ORDER '' \<and> is_idchar c)"

text \<open>A word occurs in a text; a text ends with a word.\<close>

fun occurs :: "string \<Rightarrow> string \<Rightarrow> bool" where
  "occurs w [] = (w = [])"
| "occurs w (c # cs) = (lit w (c # cs) \<noteq> None \<or> occurs w cs)"

definition ends_with :: "string \<Rightarrow> string \<Rightarrow> bool" where
  "ends_with w s = (length w \<le> length s \<and> drop (length s - length w) s = w)"

text \<open>An upper-case letter or a digit, the class \<open>[A-Z0-9]\<close>.\<close>

definition is_updigit :: "char \<Rightarrow> bool" where
  "is_updigit c = (is_upper c \<or> is_digit c)"

section \<open>Sample inputs\<close>

text \<open>
  A runtime without a backend at the instant 1700000000000, a second one in the same
  millisecond with another random text, one whose extractor answers with a negative
  quantity, one whose extractor reads one bread, an empty state and an order for bread.
\<close>

definition rt_plain :: runtime where
  "rt_plain =
     \<lparr>groq = False, llm_extract = (\<lambda>t. Rejected), llm_chat = (\<lambda>h. ChatFailed),
      date_now = 1700000000000, random36 = ''0.abcdefghijk'', saved_at = 1700000000000,
      clock_new = 1700000000000, clock_now = 1700000000000, tz_offset = 0,
      number_text = (\<lambda>q. ''1''), locale_text = (\<lambda>t. []), replace_word = (\<lambda>w x. Some x)\<rparr>"

definition rt_again :: runtime where
  "rt_again = rt_plain\<lparr>random36 := ''0.zyxwvutsrqp''\<rparr>"

definition json_minus_two :: llm_json where
  "json_minus_two =
     \<lparr>j_customerName = None, j_address = None, j_item = Some ''bread'', j_qty = Some (- 2),
      j_pickupTime = None, j_assignedTo = None, j_status = Some ''created'',
      j_trackingId = None, j_amount = Some 200, j_expenses = Some 50\<rparr>"

definition rt_minus_two :: runtime where
  "rt_minus_two = rt_plain\<lparr>groq := True, llm_extract := (\<lambda>t. Object json_minus_two)\<rparr>"

definition json_bread :: llm_json where
  "json_bread = json_minus_two\<lparr>j_qty := Some 1\<rparr>"

definition rt_bread :: runtime where
  "rt_bread = rt_plain\<lparr>groq := True, llm_extract := (\<lambda>t. Object json_bread)\<rparr>"

definition rt_rejecting :: runtime where
  "rt_rejecting = rt_plain\<lparr>groq := True\<rparr>"

definition no_orders :: state where
  "no_orders = \<lparr>orders = [], conversationHistory = (\<lambda>u. None)\<rparr>"

definition bread :: "string \<Rightarrow> order" where
  "bread tid =
     \<lparr>trackingId = tid, customerName = None, address = None, item = ''bread'', qty = 1,
      status = ''created'', pickupTime = None, assignedTo = None, amount = 200,
      expenses = 50, createdBy = ''demo-user'', createdAt = 1700000000000\<rparr>"

definition one_order :: "string \<Rightarrow> state" where
  "one_order tid = \<lparr>orders = [bread tid], conversationHistory = (\<lambda>u. None)\<rparr>"

text \<open>A store of twelve orders, created at the instants 1 to 12 and saved in another order.\<close>

definition twelve_orders :: state where
  "twelve_orders =
     \<lparr>orders = map (\<lambda>k. (bread (''ORD-'' @ toStringRadix 10 k))\<lparr>createdAt := k\<rparr>)
                 [5, 12, 1, 9, 3, 11, 7, 2, 10, 4, 8, 6],
      conversationHistory = (\<lambda>u. None)\<rparr>"

section \<open>Facts about characters and matchers\<close>

lemma charCode_lt: "charCode c < 256"
proof -
  have "charCode c mod 256 = charCode c" by (simp add: charCode_def)
  then show ?thesis by (metis mod_less_divisor zero_less_numeral)
qed

lemma charCode_char_of: "charCode (char_of n) = n mod 256"
  by (simp add: charCode_def)

lemma charCode_inj: "charCode c = charCode d \<Longrightarrow> c = d"
  by (simp add: charCode_def)

lemma charCode_sub_mod: "(charCode c - k) mod 256 = charCode c - k"
  using charCode_lt[of c] by (simp add: less_imp_diff_less)

lemma upper_char_of_lower: "is_lower c \<Longrightarrow> is_upper (upper_char c)"
  by (auto simp add: upper_char_def is_lower_def is_upper_def charCode_char_of charCode_sub_mod)

lemma upper_char_idem: "upper_char (upper_char c) = upper_char c"
  using charCode_lt[of c]
  by (auto simp add: upper_char_def is_lower_def charCode_char_of)

lemma is_alnum_upper_char: "is_alnum c \<Longrightarrow> is_alnum (upper_char c)"
  using upper_char_of_lower[of c]
  by (cases "is_lower c") (auto simp add: is_alnum_def is_letter_def upper_char_def)

lemma is_alnum_word: "is_alnum c \<Longrightarrow> is_word c"
  by (simp add: is_word_def)

lemma toUpperCase_idem: "toUpperCase (toUpperCase s) = toUpperCase s"
  by (simp add: toUpperCase_def upper_char_idem)

lemma search_Some: "search m prev s = Some r \<Longrightarrow> \<exists>p s'. m p s' = Some r"
  by (induction m prev s rule: search.induct) (auto split: option.splits)

lemma lower_char_eq_upper: 
  assumes "lower_char c = lower_char d" shows "upper_char c = upper_char d"
proof -
  have "charCode (lower_char c) = charCode (lower_char d)" using assms by simp
  then have "charCode (upper_char c) = charCode (upper_char d)"
    using charCode_lt[of c] charCode_lt[of d]
    by (auto simp add: lower_char_def upper_char_def is_upper_def is_lower_def charCode_char_of split: if_splits)
  then show ?thesis by (rule charCode_inj)
qed


lemma liti_Some:
  "liti p s = Some r \<Longrightarrow> \<exists>m. s = m @ r \<and> length m = length p \<and> toUpperCase m = toUpperCase p"
proof (induction p s rule: liti.induct)
  case (1 s)
  then show ?case by (simp add: toUpperCase_def)
next
  case (2 p ps)
  then show ?case by simp
next
  case (3 p ps c cs)
  show ?case
  proof (cases "lower_char p = lower_char c")
    case True
    from "3.prems" True have "liti ps cs = Some r" by simp
    from "3.IH"[OF True this] obtain m where m: "cs = m @ r" "length m = length ps"
      "toUpperCase m = toUpperCase ps"
      by blast
    have "upper_char c = upper_char p" using True by (intro lower_char_eq_upper) simp
    with m have "c # cs = (c # m) @ r \<and> length (c # m) = length (p # ps) \<and>
        toUpperCase (c # m) = toUpperCase (p # ps)"
      by (simp add: toUpperCase_def)
    then show ?thesis by blast
  next
    case False
    with "3.prems" show ?thesis by simp
  qed
qed

lemma re_ord_token_Some:
  assumes "re_ord_token prev s = Some m"
  shows "\<exists>run. run \<noteq> [] \<and> list_all is_alnum run \<and> toUpperCase m = ''ORD-'' @ toUpperCase run"
proof -
  from assms obtain r where r: "liti ''ORD-'' s = Some r"
    and run: "takeWhile is_alnum r \<noteq> []" and m: "m = take 4 s @ takeWhile is_alnum r"
    by (auto simp add: re_ord_token_def Let_def split: if_splits option.splits)
  from liti_Some[OF r] obtain pre where pre: "s = pre @ r" "length pre = 4"
      "toUpperCase pre = toUpperCase ''ORD-''" by auto
  have up: "toUpperCase ''ORD-'' = ''ORD-''" by code_simp
  have "list_all is_alnum (takeWhile is_alnum r)"
    by (simp add: list_all_iff) (meson set_takeWhileD)
  moreover have "toUpperCase m = ''ORD-'' @ toUpperCase (takeWhile is_alnum r)"
    using m pre up by (simp add: toUpperCase_def)
  ultimately show ?thesis using run by blast
qed

lemma re_ord_token_at:
  assumes "boundary prev s" "liti ''ORD-'' s = Some r" "takeWhile is_alnum r \<noteq> []"
    "boundary (Some (last (takeWhile is_alnum r))) (dropWhile is_alnum r)"
  shows "re_ord_token prev s = Some (take 4 s @ takeWhile is_alnum r)"
  using assms by (simp add: re_ord_token_def Let_def)

lemma upper_ORD: "toUpperCase ''ORD-'' = ''ORD-''"
  by code_simp

lemma extract_canonical:
  assumes "run \<noteq> []" "list_all is_alnum run"
  shows "extractTrackingIdFrom (''ORD-'' @ toUpperCase run) = Some (''ORD-'' @ toUpperCase run)"
proof -
  define R where "R = toUpperCase run"
  define s where "s = ''ORD-'' @ R"
  have al: "list_all is_alnum R"
    using assms(2) by (simp add: R_def toUpperCase_def list_all_iff is_alnum_upper_char)
  have ne: "R \<noteq> []" using assms(1) by (simp add: R_def toUpperCase_def)
  have tw: "takeWhile is_alnum R = R" "dropWhile is_alnum R = []"
    using al by (simp_all add: list_all_iff)
  have "is_alnum (last R)" using al ne by (simp add: list_all_iff)
  then have b2: "boundary (Some (last R)) []"
    by (simp add: boundary_def word_before_def word_after_def is_alnum_word)
  have "is_word CHR ''O''" by code_simp
  then have b1: "boundary None s"
    by (simp add: s_def boundary_def word_before_def word_after_def)
  have l: "liti ''ORD-'' s = Some R" by (simp add: s_def)
  have "re_ord_token None s = Some (take 4 s @ takeWhile is_alnum R)"
    using b1 l ne b2 by (intro re_ord_token_at) (simp_all add: tw)
  then have "matches re_ord_token s = Some s"
    by (cases s) (simp_all add: matches_def tw s_def)
  moreover have "toUpperCase s = s"
    using upper_ORD by (simp add: s_def R_def toUpperCase_def upper_char_idem)
  ultimately show ?thesis by (simp add: extractTrackingIdFrom_def s_def R_def)
qed


section \<open>Facts about dates\<close>

lemma local_day_setSeconds00: "local_day tz (setSeconds00 tz t) = local_day tz t"
proof -
  define x where "x = t + tz"
  have "x - x mod 60000 = 60000 * (x div 60000)"
    by (simp add: minus_mod_eq_mult_div)
  then have "(x - x mod 60000) div (60000 * 1440) = (x div 60000) div 1440"
    by simp
  also have "\<dots> = x div (60000 * 1440)"
    by (simp add: zdiv_zmult2_eq)
  finally have "(x - x mod 60000) div 86400000 = x div 86400000" by simp
  moreover have "t - (t + tz) mod 60000 + tz = x - x mod 60000" by (simp add: x_def)
  ultimately show ?thesis
    by (simp add: local_day_def setSeconds00_def msPerDay_def msPerMinute_def x_def)
qed

lemma setHours_setSeconds00: "setHours tz (setSeconds00 tz t) h mi = setHours tz t h mi"
  using local_day_setSeconds00[of tz t] by (simp add: setHours_def local_day_def)

lemma re_time_5pm: "matches re_time ''5 pm'' = Some (''5'', None, Some ''pm'')"
  by code_simp

lemma parseInt_5: "parseInt ''5'' = 5"
  by code_simp

lemma extractPickupTime_5pm_value:
  "extractPickupTime tz t_new t_now ''5 pm'' =
     Some (if setHours tz t_new 17 0 < t_now then nextDate (setHours tz t_new 17 0)
           else setHours tz t_new 17 0)"
  by (simp add: extractPickupTime_def re_time_5pm parseInt_5 Let_def setHours_setSeconds00)

lemma day_time_setHours:
  assumes "int h * msPerHour + int mi * msPerMinute < msPerDay"
  shows "local_day tz (setHours tz t h mi) = local_day tz t"
    and "time_of_day tz (setHours tz t h mi) = int h * msPerHour + int mi * msPerMinute"
    and "local_day tz (nextDate (setHours tz t h mi)) = local_day tz t + 1"
    and "time_of_day tz (nextDate (setHours tz t h mi)) = int h * msPerHour + int mi * msPerMinute"
proof -
  define x where "x = int h * msPerHour + int mi * msPerMinute"
  have x: "0 \<le> x" "x < msPerDay" using assms by (simp_all add: x_def msPerHour_def msPerMinute_def)
  define q where "q = (t + tz) div msPerDay"
  have e: "setHours tz t h mi + tz = q * msPerDay + x"
    by (simp add: setHours_def q_def x_def)
  have D: "0 < msPerDay" by (simp add: msPerDay_def)
  have "(q * msPerDay + x) div msPerDay = q" using x D by simp
  moreover have "(q * msPerDay + x) mod msPerDay = x" using x D by simp
  moreover have "(q * msPerDay + x + msPerDay) div msPerDay = q + 1" using x D
    by (simp add: div_add_self2)
  moreover have "(q * msPerDay + x + msPerDay) mod msPerDay = x" using x D by simp
  ultimately show "local_day tz (setHours tz t h mi) = local_day tz t"
    and "time_of_day tz (setHours tz t h mi) = int h * msPerHour + int mi * msPerMinute"
    and "local_day tz (nextDate (setHours tz t h mi)) = local_day tz t + 1"
    and "time_of_day tz (nextDate (setHours tz t h mi)) = int h * msPerHour + int mi * msPerMinute"
    using e by (simp_all add: local_day_def time_of_day_def nextDate_def q_def[symmetric] x_def[symmetric] add.commute add.left_commute)
qed


section \<open>Facts about the controller\<close>

lemma aiReply_create:
  "intent (parseIntent txt) = ''create_order'' \<Longrightarrow>
   aiReply rt txt uid s = create_order rt txt (user_of uid) (pushed s (user_of uid) txt) s"
  by (simp add: aiReply_def Let_def)

lemma aiReply_list:
  "intent (parseIntent txt) = ''list_orders'' \<Longrightarrow>
   aiReply rt txt uid s = list_orders (user_of uid) (pushed s (user_of uid) txt) s"
  by (simp add: aiReply_def Let_def)

lemma aiReply_cancel:
  "intent (parseIntent txt) = ''cancel_order'' \<Longrightarrow>
   aiReply rt txt uid s = cancel_order txt (user_of uid) (pushed s (user_of uid) txt) s"
  by (simp add: aiReply_def Let_def)

lemma aiReply_update:
  "intent (parseIntent txt) = ''update_order'' \<Longrightarrow>
   aiReply rt txt uid s = update_order rt txt (user_of uid) (pushed s (user_of uid) txt) s"
  by (simp add: aiReply_def Let_def)

lemma aiReply_track:
  "intent (parseIntent txt) = ''track_order'' \<Longrightarrow> captured (parseIntent txt) = Some tid \<Longrightarrow>
   tid \<noteq> [] \<Longrightarrow>
   aiReply rt txt uid s = track_order tid (user_of uid) (pushed s (user_of uid) txt) s"
  by (simp add: aiReply_def Let_def str_or_null_def)

lemma sorted_find_recent: "sorted_wrt (\<lambda>a b. createdAt b \<le> createdAt a) (find_recent ds)"
proof -
  have "sorted (map (\<lambda>d. - createdAt d) (sort_key (\<lambda>d. - createdAt d) ds))"
    by (rule sorted_sort_key)
  then have "sorted_wrt (\<lambda>a b. createdAt b \<le> createdAt a) (sort_key (\<lambda>d. - createdAt d) ds)"
    by (simp add: sorted_map)
  then show ?thesis
    unfolding find_recent_def by (rule sorted_wrt_take)
qed

lemma length_find_recent: "length (find_recent ds) = min 10 (length ds)"
  by (simp add: find_recent_def min.commute)

lemma set_find_recent: "set (find_recent ds) \<subseteq> set ds"
  unfolding find_recent_def by (metis set_sort set_take_subset)


lemma find_recent_rest:
  "\<exists>rest. mset (find_recent ds @ rest) = mset ds \<and>
          (\<forall>x\<in>set rest. \<forall>y\<in>set (find_recent ds). createdAt x \<le> createdAt y) \<and>
          (length ds \<le> 10 \<longrightarrow> rest = [])"
proof -
  define xs where "xs = sort_key (\<lambda>d. - createdAt d) ds"
  have "sorted (map (\<lambda>d. - createdAt d) xs)" unfolding xs_def by (rule sorted_sort_key)
  then have "sorted_wrt (\<lambda>a b. createdAt b \<le> createdAt a) xs" by (simp add: sorted_map)
  then have "sorted_wrt (\<lambda>a b. createdAt b \<le> createdAt a) (take 10 xs @ drop 10 xs)" by simp
  then have le: "\<forall>x\<in>set (drop 10 xs). \<forall>y\<in>set (take 10 xs). createdAt x \<le> createdAt y"
    unfolding sorted_wrt_append by blast
  have "mset (take 10 xs @ drop 10 xs) = mset ds" by (simp add: xs_def)
  moreover have "length ds \<le> 10 \<longrightarrow> drop 10 xs = []" by (simp add: xs_def)
  ultimately have "mset (find_recent ds @ drop 10 xs) = mset ds \<and>
          (\<forall>x\<in>set (drop 10 xs). \<forall>y\<in>set (find_recent ds). createdAt x \<le> createdAt y) \<and>
          (length ds \<le> 10 \<longrightarrow> drop 10 xs = [])"
    using le unfolding find_recent_def xs_def by simp
  then show ?thesis by (rule exI[of _ "drop 10 xs"])
qed

lemma twelve_listed:
  "(case orders_of (fst (aiReply rt_plain ''list my orders'' None twelve_orders)) of
      None \<Rightarrow> False
    | Some found \<Rightarrow> map createdAt found = [12, 11, 10, 9, 8, 7, 6, 5, 4, 3])"
  by code_simp


section \<open>Facts about order creation\<close>

lemma digits36_alnum: "list_all is_alnum digits36"
  by code_simp

lemma digit_char_alnum: "0 \<le> d \<Longrightarrow> d < 36 \<Longrightarrow> is_alnum (digit_char d)"
proof -
  assume d: "0 \<le> d" "d < 36"
  have "length digits36 = 36" by (simp add: digits36_def)
  with d have "digits36 ! nat d \<in> set digits36" by (intro nth_mem) simp
  with digits36_alnum show ?thesis using d by (simp add: digit_char_def list_all_iff)
qed

lemma toStringRadix36_alnum:
  "b = 36 \<Longrightarrow> 0 \<le> n \<Longrightarrow> toStringRadix b n \<noteq> [] \<and> list_all is_alnum (toStringRadix b n)"
proof (induction b n rule: toStringRadix.induct)
  case (1 b n)
  show ?case
  proof (cases "n < b")
    case True
    with 1 show ?thesis by (simp add: digit_char_alnum)
  next
    case False
    with 1 have "0 \<le> n div b" "0 \<le> n mod b" "n mod b < 36"
      by (simp_all add: pos_imp_zdiv_nonneg_iff)
    with 1 False show ?thesis
      by (subst toStringRadix.simps, subst (2) toStringRadix.simps) (simp add: digit_char_alnum)
  qed
qed

lemma makeTrackingId_alnum_id:
  assumes "0 \<le> now" "list_all is_alnum (slice 2 8 rnd)"
  shows "alnum_id (makeTrackingId now rnd)"
proof -
  have a: "toStringRadix 36 now \<noteq> []" "list_all is_alnum (toStringRadix 36 now)"
    using toStringRadix36_alnum[OF refl assms(1)] by simp_all
  have b: "list_all is_alnum (toUpperCase (slice 2 8 rnd))"
    using assms(2) by (simp add: toUpperCase_def list_all_iff is_alnum_upper_char)
  show ?thesis using a b by (simp add: alnum_id_def makeTrackingId_def)
qed

lemma create_order_result:
  "create_order rt txt user h s =
     finish s user h (orders s @ [new_order rt txt user])
       ((answer (''Order created. Tracking ID '' @ trackingId (new_order rt txt user) @ ''.'')
           ''created_order'')\<lparr>order_of := OrderDoc (new_order rt txt user)\<rparr>)"
  by (simp add: create_order_def Let_def save_def)

lemma new_order_fallback:
  assumes "\<not> groq rt \<or> llm_extract rt txt = Rejected \<or> llm_extract rt txt = Unparsable"
  shows "new_order rt txt user =
     \<lparr>trackingId = makeTrackingId (date_now rt) (random36 rt), customerName = None,
      address = None, item = txt, qty = 1, status = ''created'', pickupTime = None,
      assignedTo = None, amount = 200, expenses = 50, createdBy = user,
      createdAt = saved_at rt\<rparr>"
  using assms
  by (auto simp add: new_order_def Let_def extractOrderFieldsWithLLM_def fallback_fields_def
      str_or_null_def)

lemma new_order_qty:
  "qty (new_order rt txt user) =
     (case supplied_qty rt txt of None \<Rightarrow> 1 | Some q \<Rightarrow> if q = 0 then 1 else q)"
  by (simp add: new_order_def Let_def extractOrderFieldsWithLLM_def fallback_fields_def
      supplied_qty_def num_or_def split: extraction.splits option.splits)

lemma new_order_trackingId:
  "trackingId (new_order rt txt user) = makeTrackingId (date_now rt) (random36 rt)"
  by (simp add: new_order_def Let_def)


lemma toStringRadix_ne: "toStringRadix b n \<noteq> []"
  by (subst toStringRadix.simps) simp

lemma int_div_less:
  fixes n b x :: int
  assumes "n < x * b" "0 < b"
  shows "n div b < x"
proof -
  have "n div b * b + n mod b = n" by simp
  moreover have "0 \<le> n mod b" using assms(2) by simp
  ultimately have "n div b * b \<le> n" by linarith
  with assms(1) have "n div b * b < x * b" by simp
  then show ?thesis using assms(2) by (simp add: mult_less_cancel_right_pos)
qed

lemma leading_digit:
  "1 < b \<Longrightarrow> b ^ k \<le> n \<Longrightarrow> n < b ^ Suc k \<Longrightarrow>
   hd (toStringRadix b n) = digit_char (n div b ^ k)"
proof (induction k arbitrary: n)
  case 0
  then have "0 \<le> n" "n < b" by simp_all
  then show ?case by (subst toStringRadix.simps) simp
next
  case (Suc k)
  have bp: "0 < b" using Suc.prems(1) by simp
  have "b ^ 1 \<le> b ^ Suc k" using Suc.prems(1) by (intro power_increasing) simp_all
  then have nb: "b \<le> n" using Suc.prems(2) by simp
  then have n0: "0 \<le> n" using bp by simp
  have lo: "b ^ k \<le> n div b"
  proof -
    have "b ^ k * b \<le> n" using Suc.prems(2) by (simp add: mult.commute)
    then have "(b ^ k * b) div b \<le> n div b" by (rule zdiv_mono1) (rule bp)
    then show ?thesis using bp by simp
  qed
  have hi: "n div b < b ^ Suc k"
  proof -
    have "n < b ^ Suc k * b" using Suc.prems(3) by (simp add: mult.commute)
    then show ?thesis using bp by (rule int_div_less)
  qed
  have "hd (toStringRadix b (n div b)) = digit_char (n div b div b ^ k)"
    by (rule Suc.IH[OF Suc.prems(1) lo hi])
  moreover have "n div b div b ^ k = n div b ^ Suc k"
    using bp by (simp add: zdiv_zmult2_eq)
  moreover have "toStringRadix b n = toStringRadix b (n div b) @ [digit_char (n mod b)]"
    using nb n0 Suc.prems(1) by (subst toStringRadix.simps) simp
  ultimately show ?case using toStringRadix_ne[of b "n div b"] by simp
qed

lemma letters_lower: "list_all is_lower (drop 10 digits36)"
  by code_simp

lemma digit_char_lower:
  assumes "10 \<le> q" "q < 36"
  shows "is_lower (digit_char q)"
proof -
  have l: "length digits36 = 36" by (simp add: digits36_def)
  have "nat q - 10 < length (drop 10 digits36)" using assms l by simp
  then have "drop 10 digits36 ! (nat q - 10) \<in> set (drop 10 digits36)" by (rule nth_mem)
  then have "is_lower (drop 10 digits36 ! (nat q - 10))"
    using letters_lower by (simp add: list_all_iff)
  moreover have "drop 10 digits36 ! (nat q - 10) = digits36 ! nat q"
    using assms l by simp
  ultimately show ?thesis using assms by (simp add: digit_char_def)
qed

lemma lower_not_upper: "is_lower c \<Longrightarrow> upper_char c \<noteq> c"
  using upper_char_of_lower[of c] by (auto simp add: is_lower_def is_upper_def)

lemma generated_id_has_lower:
  assumes "783641640960 \<le> now" "now < 2821109907456"
  shows "toUpperCase (makeTrackingId now rnd) \<noteq> makeTrackingId now rnd"
proof -
  have p: "(36 :: int) ^ 7 = 78364164096" "(36 :: int) ^ Suc 7 = 2821109907456" by simp_all
  have "hd (toStringRadix 36 now) = digit_char (now div 36 ^ 7)"
    by (rule leading_digit) (use assms p in simp_all)
  moreover have "10 \<le> now div 36 ^ 7"
  proof -
    have "(783641640960 :: int) div 78364164096 \<le> now div 78364164096"
      by (rule zdiv_mono1) (use assms in simp_all)
    then show ?thesis unfolding p by simp
  qed
  moreover have "now div 36 ^ 7 < 36"
    unfolding p by (rule int_div_less) (use assms in simp_all)
  ultimately have "is_lower (hd (toStringRadix 36 now))" by (simp add: digit_char_lower)
  moreover obtain c cs where t: "toStringRadix 36 now = c # cs"
    using toStringRadix_ne[of 36 now] by (cases "toStringRadix 36 now") auto
  ultimately have "upper_char c \<noteq> c" by (simp add: lower_not_upper)
  then show ?thesis unfolding makeTrackingId_def t by (simp add: toUpperCase_def)
qed


section \<open>Facts about matching in texts built around an id\<close>

lemma lower_char_idem: "lower_char (lower_char c) = lower_char c"
  using charCode_lt[of c]
  by (auto simp add: lower_char_def is_upper_def charCode_char_of)

lemma toLowerCase_append: "toLowerCase (a @ b) = toLowerCase a @ toLowerCase b"
  by (simp add: toLowerCase_def)

lemma toUpperCase_append: "toUpperCase (a @ b) = toUpperCase a @ toUpperCase b"
  by (simp add: toUpperCase_def)

lemma lower_char_space: "lower_char c = CHR '' '' \<longleftrightarrow> c = CHR '' ''"
proof
  assume "lower_char c = CHR '' ''"
  then have "charCode (lower_char c) = 32" by (simp add: charCode_def)
  then have "charCode c = 32"
    using charCode_lt[of c]
    by (auto simp add: lower_char_def is_upper_def charCode_char_of split: if_splits)
  then have "charCode c = charCode CHR '' ''" by (simp add: charCode_def)
  then show "c = CHR '' ''" by (rule charCode_inj)
next
  assume "c = CHR '' ''"
  then show "lower_char c = CHR '' ''" by (simp add: lower_char_def is_upper_def charCode_def)
qed

lemma is_idchar_lower_char: "is_idchar c \<Longrightarrow> is_idchar (lower_char c)"
proof -
  assume c: "is_idchar c"
  show ?thesis
  proof (cases "is_upper c")
    case True
    then have "is_lower (lower_char c)"
      using charCode_lt[of c]
      by (auto simp add: lower_char_def is_upper_def is_lower_def charCode_char_of)
    then show ?thesis by (simp add: is_idchar_def is_alnum_def is_letter_def)
  next
    case False
    with c show ?thesis by (simp add: lower_char_def)
  qed
qed

lemma space_not_idchar: "\<not> is_idchar CHR '' ''"
  by code_simp

lemma idchars_no_space: "list_all is_idchar s \<Longrightarrow> CHR '' '' \<notin> set s"
  using space_not_idchar by (auto simp add: list_all_iff)

lemma idchars_lower: "list_all is_idchar s \<Longrightarrow> list_all is_idchar (toLowerCase s)"
  by (simp add: list_all_iff toLowerCase_def is_idchar_lower_char)

lemma lit_Some_iff: "lit p s = Some r \<longleftrightarrow> s = p @ r"
  by (induction p s rule: lit.induct) auto

lemma lit_None_missing: "c \<in> set p \<Longrightarrow> c \<notin> set s \<Longrightarrow> lit p s = None"
  by (cases "lit p s") (auto simp add: lit_Some_iff)

lemma lit_None_space: "CHR '' '' \<in> set p \<Longrightarrow> CHR '' '' \<notin> set s \<Longrightarrow> lit p s = None"
  by (rule lit_None_missing)

lemma liti_None_space: "CHR '' '' \<in> set p \<Longrightarrow> CHR '' '' \<notin> set s \<Longrightarrow> liti p s = None"
proof (induction p s rule: liti.induct)
  case (3 p ps c cs)
  then show ?case by (auto simp add: lower_char_space) (metis lower_char_space)
qed simp_all

lemma search_None:
  "(\<And>p z. set z \<subseteq> set s \<Longrightarrow> m p z = None) \<Longrightarrow> search m prev s = None"
proof (induction s arbitrary: prev)
  case Nil
  then show ?case by simp
next
  case (Cons c cs)
  have "m prev (c # cs) = None" by (rule Cons.prems) simp
  moreover have "search m (Some c) cs = None"
    by (rule Cons.IH) (rule Cons.prems, auto)
  ultimately show ?case by simp
qed

lemma re_create_no_space: "CHR '' '' \<notin> set z \<Longrightarrow> re_create p z = None"
  by (simp add: re_create_def lit_None_space orelse_def)

lemma re_track_no_space: "CHR '' '' \<notin> set z \<Longrightarrow> re_track p z = None"
  by (simp add: re_track_def liti_None_space)

lemma re_where_no_space: "CHR '' '' \<notin> set z \<Longrightarrow> re_where p z = None"
  by (simp add: re_where_def liti_None_space)

lemma re_next_no_space: "CHR '' '' \<notin> set z \<Longrightarrow> re_next p z = None"
  by (simp add: re_next_def lit_None_space orelse_def)

lemma re_list_no_space: "CHR '' '' \<notin> set z \<Longrightarrow> re_list p z = None"
  by (simp add: re_list_def lit_None_space orelse_def)

lemma search_no_space:
  assumes "\<And>p z. CHR '' '' \<notin> set z \<Longrightarrow> m p z = None" "CHR '' '' \<notin> set s"
  shows "search m prev s = None"
  by (rule search_None) (use assms in auto)


lemma lower_cancel: "toLowerCase ''cancel order '' = ''cancel order ''"
  by code_simp

lemma word_chars: "is_word CHR ''c''" "is_word CHR ''r''" "\<not> is_word CHR '' ''"
  by code_simp+

lemma parseIntent_cancel:
  assumes "list_all is_idchar U"
  shows "intent (parseIntent (''cancel order '' @ U)) = ''cancel_order''"
proof -
  define L where "L = toLowerCase U"
  have ns: "CHR '' '' \<notin> set L"
    unfolding L_def using assms by (intro idchars_no_space idchars_lower)
  have t: "toLowerCase (''cancel order '' @ U) = ''cancel order '' @ L"
    by (simp only: toLowerCase_append lower_cancel L_def)
  have s1: "search re_create p L = None" for p
    by (rule search_no_space[OF re_create_no_space ns])
  have s2: "search re_track p L = None" for p
    by (rule search_no_space[OF re_track_no_space ns])
  have s3: "search re_where p L = None" for p
    by (rule search_no_space[OF re_where_no_space ns])
  have s4: "search re_next p L = None" for p
    by (rule search_no_space[OF re_next_no_space ns])
  have s5: "search re_list p L = None" for p
    by (rule search_no_space[OF re_list_no_space ns])
  have c1: "\<not> test re_create (''cancel order '' @ L)"
    by (simp add: test_def matches_def re_create_def orelse_def s1)
  have c2: "matches re_track (''cancel order '' @ L) = None"
    by (simp add: matches_def re_track_def orelse_def s2 lower_char_def is_upper_def charCode_def)
  have c3: "matches re_where (''cancel order '' @ L) = None"
    by (simp add: matches_def re_where_def orelse_def s3 lower_char_def is_upper_def charCode_def)
  have c4: "\<not> test re_next (''cancel order '' @ L)"
    by (simp add: test_def matches_def re_next_def orelse_def s4)
  have c5: "\<not> test re_list (''cancel order '' @ L)"
    by (simp add: test_def matches_def re_list_def orelse_def s5)
  have c6: "test re_cancel (''cancel order '' @ L)"
    by (simp add: test_def matches_def re_cancel_def lit_b_def boundary_def word_before_def
        word_after_def word_chars)
  show ?thesis
    by (simp add: parseIntent_def Let_def t c1 c2 c3 c4 c5 c6 orelse_def del: append.simps)
qed


lemma upper_char_eq_lower:
  assumes "upper_char c = upper_char d" shows "lower_char c = lower_char d"
proof -
  have "charCode (upper_char c) = charCode (upper_char d)" using assms by simp
  then have "charCode (lower_char c) = charCode (lower_char d)"
    using charCode_lt[of c] charCode_lt[of d]
    by (auto simp add: lower_char_def upper_char_def is_upper_def is_lower_def charCode_char_of
        charCode_sub_mod split: if_splits)
  then show ?thesis by (rule charCode_inj)
qed

lemma liti_upper_prefix:
  "toUpperCase w = toUpperCase p \<Longrightarrow> liti p (w @ r) = Some r"
proof (induction p arbitrary: w)
  case Nil
  then show ?case by (simp add: toUpperCase_def)
next
  case (Cons a p)
  then obtain b w' where w: "w = b # w'" "upper_char b = upper_char a"
    "toUpperCase w' = toUpperCase p"
    by (cases w) (auto simp add: toUpperCase_def)
  have "lower_char a = lower_char b" using w(2) by (intro upper_char_eq_lower) simp
  with Cons.IH[OF w(3)] w(1) show ?case by simp
qed

lemma liti_self: "liti p (p @ r) = Some r"
  by (rule liti_upper_prefix) simp

lemma search_here: "m prev s = Some r \<Longrightarrow> search m prev s = Some r"
  by (cases s) simp_all

lemma search_Some_split:
  "search m prev s = Some r \<Longrightarrow> \<exists>a z p. s = a @ z \<and> m p z = Some r"
proof (induction s arbitrary: prev)
  case Nil
  then show ?case by auto
next
  case (Cons c cs)
  show ?case
  proof (cases "m prev (c # cs)")
    case None
    with Cons.prems have "search m (Some c) cs = Some r" by simp
    from Cons.IH[OF this] obtain a z p where "cs = a @ z" "m p z = Some r" by blast
    then have "c # cs = (c # a) @ z \<and> m p z = Some r" by simp
    then show ?thesis by blast
  next
    case (Some x)
    with Cons.prems have "m prev (c # cs) = Some r" by simp
    then have "c # cs = [] @ (c # cs) \<and> m prev (c # cs) = Some r" by simp
    then show ?thesis by blast
  qed
qed

lemma search_finds:
  "(\<And>p. m p z \<noteq> None) \<Longrightarrow> search m prev (a @ z) \<noteq> None"
proof (induction a arbitrary: prev)
  case Nil
  have "m prev z \<noteq> None" by (rule Nil.prems)
  then obtain r where "m prev z = Some r" by blast
  then have "search m prev z = Some r" by (rule search_here)
  then show ?case by simp
next
  case (Cons c a)
  have "search m (Some c) (a @ z) \<noteq> None" by (rule Cons.IH) (rule Cons.prems)
  then show ?case by (cases "m prev (c # a @ z)") simp_all
qed

lemma run1_all: "s \<noteq> [] \<Longrightarrow> list_all P s \<Longrightarrow> run1 P s = Some s"
proof -
  assume s: "s \<noteq> []" "list_all P s"
  then have tw: "takeWhile P s = s" by (simp add: list_all_iff)
  show ?thesis unfolding run1_def tw using s(1) by simp
qed

lemma matches_cancel_id:
  assumes "U \<noteq> []" "list_all is_idchar U"
  shows "matches re_cancel_id (''cancel order '' @ U) = Some U"
proof -
  have "re_cancel_id None (''cancel order '' @ U) = Some U"
    unfolding re_cancel_id_def by (simp only: liti_self) (simp add: run1_all assms)
  then show ?thesis unfolding matches_def by (rule search_here)
qed

lemma upper_cancel: "toUpperCase ''cancel order '' = ''CANCEL ORDER ''"
  by code_simp

lemma has_cancel_id_iff: "has_cancel_id t \<longleftrightarrow> matches re_cancel_id t \<noteq> None"
proof
  assume "has_cancel_id t"
  then obtain a w c b where t: "t = a @ w @ c # b" and w: "toUpperCase w = ''CANCEL ORDER ''"
    and c: "is_idchar c"
    unfolding has_cancel_id_def by blast
  have "liti ''cancel order '' (w @ c # b) = Some (c # b)"
    by (rule liti_upper_prefix) (simp only: w upper_cancel)
  then have "re_cancel_id p (w @ c # b) \<noteq> None" for p
    using c by (simp add: re_cancel_id_def run1_def)
  then show "matches re_cancel_id t \<noteq> None"
    unfolding matches_def t by (rule search_finds)
next
  assume "matches re_cancel_id t \<noteq> None"
  then obtain r where "search re_cancel_id None t = Some r" by (auto simp add: matches_def)
  from search_Some_split[OF this] obtain a z p where z: "t = a @ z" "re_cancel_id p z = Some r"
    by blast
  then obtain r' where r': "liti ''cancel order '' z = Some r'" "run1 is_idchar r' = Some r"
    by (auto simp add: re_cancel_id_def Option.bind_eq_Some_conv)
  from liti_Some[OF r'(1)] obtain w where w: "z = w @ r'"
    "toUpperCase w = toUpperCase ''cancel order ''" by blast
  from r'(2) obtain c b where cb: "r' = c # b" "is_idchar c"
    by (cases r') (auto simp add: run1_def split: if_splits)
  have "t = a @ w @ c # b \<and> toUpperCase w = ''CANCEL ORDER '' \<and> is_idchar c"
    using z(1) w cb by (simp add: upper_cancel)
  then show "has_cancel_id t" unfolding has_cancel_id_def by blast
qed

lemma find_from_None: "\<not> list_ex P ds \<Longrightarrow> find_from i P ds = None"
  by (induction ds arbitrary: i) auto

lemma findOne_None: "\<not> list_ex P ds \<Longrightarrow> findOne P ds = None"
  by (simp add: findOne_def find_from_None)

lemma findOneAndUpdate_None: "\<not> list_ex P ds \<Longrightarrow> findOneAndUpdate P f ds = (None, ds)"
  by (simp add: findOneAndUpdate_def findOne_None)

lemma cancel_unknown:
  assumes "U \<noteq> []" "list_all is_idchar U"
    "\<not> list_ex (\<lambda>d. trackingId d = toUpperCase U) (orders s)"
  shows "aiReply rt (''cancel order '' @ U) uid s =
     finish s (user_of uid) (pushed s (user_of uid) (''cancel order '' @ U)) (orders s)
       ((answer (''Couldn'' @ [CHR 0x27] @ ''t find order '' @ U @ ''.'') ''cancel_order'')
          \<lparr>order_of := NullOrder\<rparr>)"
  by (simp only: aiReply_cancel[OF parseIntent_cancel[OF assms(2)]] cancel_order_def
      matches_cancel_id[OF assms(1) assms(2)] findOneAndUpdate_None[OF assms(3)]
      option.case prod.case)

lemma cancel_no_id:
  assumes "intent (parseIntent txt) = ''cancel_order''" "\<not> has_cancel_id txt"
  shows "aiReply rt txt uid s =
     finish s (user_of uid) (pushed s (user_of uid) txt) (orders s)
       (answer
          (''Please provide the order ID to cancel (e.g., '' @ [CHR 0x27] @
           ''Cancel order ORD-ABC123'' @ [CHR 0x27] @ '').'')
          ''ask_for_order_id'')"
proof -
  have "matches re_cancel_id txt = None" using assms(2) by (simp add: has_cancel_id_iff)
  then show ?thesis
    by (simp only: aiReply_cancel[OF assms(1)] cancel_order_def option.case)
qed


lemma lower_track: "toLowerCase ''track order '' = ''track order ''"
  by code_simp

lemma parseIntent_track:
  assumes "T \<noteq> []" "list_all is_idchar T"
  shows "parseIntent (''track order '' @ T) =
           \<lparr>intent = ''track_order'', captured = Some (toLowerCase T)\<rparr>"
proof -
  define L where "L = toLowerCase T"
  have ns: "CHR '' '' \<notin> set L"
    unfolding L_def using assms(2) by (intro idchars_no_space idchars_lower)
  have L: "L \<noteq> []" "list_all is_idchar L"
    using assms by (simp_all add: L_def idchars_lower) (simp add: toLowerCase_def)
  have t: "toLowerCase (''track order '' @ T) = ''track order '' @ L"
    by (simp only: toLowerCase_append lower_track L_def)
  have s1: "search re_create p L = None" for p
    by (rule search_no_space[OF re_create_no_space ns])
  have c1: "\<not> test re_create (''track order '' @ L)"
    by (simp add: test_def matches_def re_create_def orelse_def s1)
  have "re_track None (''track order '' @ L) = Some L"
    by (simp add: re_track_def orelse_def run1_all[OF L])
  then have c2: "matches re_track (''track order '' @ L) = Some L"
    unfolding matches_def by (rule search_here)
  have "parseIntent (''track order '' @ T) = \<lparr>intent = ''track_order'', captured = Some L\<rparr>"
    by (simp add: parseIntent_def Let_def t c1 c2 orelse_def del: append.simps)
  then show ?thesis by (simp only: L_def)
qed

lemma alnum_idchar: "is_alnum c \<Longrightarrow> is_idchar c"
  by (simp add: is_idchar_def)

lemma ORD_idchars: "list_all is_idchar ''ORD-''"
  by code_simp

lemma alnum_id_idchars:
  assumes "alnum_id T"
  shows "T \<noteq> []" "list_all is_idchar T" "take 4 T = ''ORD-''"
proof -
  from assms have a: "take 4 T = ''ORD-''" "drop 4 T \<noteq> []" "list_all is_alnum (drop 4 T)"
    by (simp_all add: alnum_id_def)
  show "T \<noteq> []" using a(2) by auto
  show "take 4 T = ''ORD-''" by (rule a(1))
  have "list_all is_idchar (take 4 T @ drop 4 T)"
    using a(3) ORD_idchars unfolding a(1) by (simp add: list_all_iff alnum_idchar)
  then show "list_all is_idchar T" by simp
qed

lemma lower_ORD_differs:
  assumes "take 4 T = ''ORD-''" shows "toLowerCase T \<noteq> T"
proof -
  from assms obtain r where "T = CHR ''O'' # r" by (cases T) (auto split: if_splits)
  moreover have "lower_char CHR ''O'' \<noteq> CHR ''O''" by code_simp
  ultimately show ?thesis by (simp add: toLowerCase_def)
qed

lemma aiReply_create_result:
  assumes "intent (parseIntent txt) = ''create_order''"
  shows "order_of (fst (aiReply rt txt uid s)) = OrderDoc (new_order rt txt (user_of uid))"
    and "orders (snd (aiReply rt txt uid s)) = orders s @ [new_order rt txt (user_of uid)]"
    and "action (fst (aiReply rt txt uid s)) = Some ''created_order''"
  by (simp_all add: aiReply_create[OF assms] create_order_result finish_def answer_def)

lemma status_new_order: "status (new_order rt txt user) = ''created''"
  by (simp add: new_order_def Let_def)


section \<open>Facts about the update command on an id\<close>

lemma updigit_alnum: "is_updigit c \<Longrightarrow> is_alnum c"
  by (auto simp add: is_updigit_def is_alnum_def is_letter_def)

lemma updigit_upper: "is_updigit c \<Longrightarrow> upper_char c = c"
  by (auto simp add: is_updigit_def upper_char_def is_lower_def is_upper_def is_digit_def)

lemma updigit_upper_lower: "is_updigit c \<Longrightarrow> upper_char (lower_char c) = c"
  using charCode_lt[of c] charCode_inj[of "char_of (charCode c + 32 - 32)" c]
  by (auto simp add: is_updigit_def upper_char_def lower_char_def is_lower_def is_upper_def
      is_digit_def charCode_char_of)

lemma is_alnum_lower_char: "is_alnum c \<Longrightarrow> is_alnum (lower_char c)"
proof (cases "is_upper c")
  case True
  then have "is_lower (lower_char c)"
    using charCode_lt[of c]
    by (auto simp add: lower_char_def is_upper_def is_lower_def charCode_char_of)
  then show ?thesis by (simp add: is_alnum_def is_letter_def)
next
  case False
  assume "is_alnum c"
  with False show ?thesis by (simp add: lower_char_def)
qed

lemma space_not_alnum: "\<not> is_alnum CHR '' ''" "\<not> is_word CHR '' ''" "\<not> is_word CHR ''-''"
  by code_simp+

lemma alnum_no_space: "list_all is_alnum s \<Longrightarrow> CHR '' '' \<notin> set s"
  using space_not_alnum(1) by (auto simp add: list_all_iff)

lemma toUpperCase_updigit: "list_all is_updigit s \<Longrightarrow> toUpperCase s = s"
  by (induction s) (simp_all add: toUpperCase_def updigit_upper)

lemma toUpperCase_lower_updigit: "list_all is_updigit s \<Longrightarrow> toUpperCase (toLowerCase s) = s"
  by (induction s) (simp_all add: toUpperCase_def toLowerCase_def updigit_upper_lower)

lemma lower_alnum: "list_all is_alnum s \<Longrightarrow> list_all is_alnum (toLowerCase s)"
  by (simp add: list_all_iff toLowerCase_def is_alnum_lower_char)

lemma lit_space:
  "CHR '' '' \<notin> set z \<Longrightarrow> CHR '' '' \<in> set p \<Longrightarrow>
   lit p (z @ CHR '' '' # ys) =
     (if takeWhile (\<lambda>c. c \<noteq> CHR '' '') p = z
      then lit (tl (dropWhile (\<lambda>c. c \<noteq> CHR '' '') p)) ys else None)"
proof (induction p arbitrary: z)
  case Nil
  then show ?case by simp
next
  case (Cons a p)
  show ?case
  proof (cases z)
    case Nil
    then show ?thesis by auto
  next
    case (Cons b z')
    with Cons.prems have b: "b \<noteq> CHR '' ''" "CHR '' '' \<notin> set z'" by auto
    show ?thesis
    proof (cases "a = CHR '' ''")
      case True
      with b Cons show ?thesis by auto
    next
      case False
      with Cons.prems have "CHR '' '' \<in> set p" by auto
      from Cons.IH[OF b(2) this] False Cons show ?thesis by auto
    qed
  qed
qed

lemma lower_space: "lower_char CHR '' '' = CHR '' ''"
  by code_simp

lemma liti_space:
  "CHR '' '' \<notin> set z \<Longrightarrow> CHR '' '' \<in> set p \<Longrightarrow>
   liti p (z @ CHR '' '' # ys) =
     (if liti (takeWhile (\<lambda>c. c \<noteq> CHR '' '') p) z = Some []
      then liti (tl (dropWhile (\<lambda>c. c \<noteq> CHR '' '') p)) ys else None)"
proof (induction p arbitrary: z)
  case Nil
  then show ?case by simp
next
  case (Cons a p)
  show ?case
  proof (cases z)
    case Nil
    then show ?thesis by (auto simp add: lower_space lower_char_space)
  next
    case (Cons b z')
    with Cons.prems have b: "b \<noteq> CHR '' ''" "CHR '' '' \<notin> set z'" by auto
    show ?thesis
    proof (cases "a = CHR '' ''")
      case True
      with b Cons show ?thesis
        using lower_char_space[of b] by (auto simp add: lower_space)
    next
      case False
      with Cons.prems have "CHR '' '' \<in> set p" by auto
      from Cons.IH[OF b(2) this] False Cons show ?thesis by auto
    qed
  qed
qed

lemma lit_nospace:
  "CHR '' '' \<notin> set p \<Longrightarrow>
   lit p (z @ CHR '' '' # ys) =
     (case lit p z of None \<Rightarrow> None | Some r \<Rightarrow> Some (r @ CHR '' '' # ys))"
  by (induction p z rule: lit.induct) auto

lemma liti_nospace:
  "CHR '' '' \<notin> set p \<Longrightarrow>
   liti p (z @ CHR '' '' # ys) =
     (case liti p z of None \<Rightarrow> None | Some r \<Rightarrow> Some (r @ CHR '' '' # ys))"
proof (induction p z rule: liti.induct)
  case (3 p ps c cs)
  then show ?case by auto
next
  case (2 p ps)
  then show ?case using lower_char_space[of p] by (auto simp add: lower_space)
qed auto

lemma search_skip:
  assumes "\<And>a z. L = a @ z \<Longrightarrow> z \<noteq> [] \<Longrightarrow>
             m (if a = [] then prev else Some (last a)) (z @ post) = None"
  shows "search m prev (L @ post) = search m (if L = [] then prev else Some (last L)) post"
  using assms
proof (induction L arbitrary: prev)
  case Nil
  then show ?case by simp
next
  case (Cons c cs)
  have "m prev ((c # cs) @ post) = None"
    using Cons.prems[of "[]" "c # cs"] by simp
  moreover have "search m (Some c) (cs @ post) =
      search m (if cs = [] then Some c else Some (last cs)) post"
  proof (rule Cons.IH)
    fix a z assume "cs = a @ z" "z \<noteq> []"
    then show "m (if a = [] then Some c else Some (last a)) (z @ post) = None"
      using Cons.prems[of "c # a" z] by (cases "a = []") simp_all
  qed
  ultimately show ?case by simp
qed

lemma split_on_ne: "split_on m k prev s \<noteq> []"
  by (induction m k prev s rule: split_on.induct)
     (auto simp add: cons_first_def split: option.splits list.splits)

lemma nth_opt_cons_first: "ps \<noteq> [] \<Longrightarrow> nth_opt (cons_first c ps) (Suc 0) = nth_opt ps (Suc 0)"
  by (cases ps) (simp_all add: cons_first_def)

lemma split_skip:
  assumes "\<And>a z. L = a @ z \<Longrightarrow> z \<noteq> [] \<Longrightarrow>
             m (if a = [] then prev else Some (last a)) (z @ post) = None"
  shows "nth_opt (split_on m 0 prev (L @ post)) (Suc 0) =
         nth_opt (split_on m 0 (if L = [] then prev else Some (last L)) post) (Suc 0)"
  using assms
proof (induction L arbitrary: prev)
  case Nil
  then show ?case by simp
next
  case (Cons c cs)
  have n: "m prev ((c # cs) @ post) = None"
    using Cons.prems[of "[]" "c # cs"] by simp
  have "nth_opt (split_on m 0 (Some c) (cs @ post)) (Suc 0) =
      nth_opt (split_on m 0 (if cs = [] then Some c else Some (last cs)) post) (Suc 0)"
  proof (rule Cons.IH)
    fix a z assume "cs = a @ z" "z \<noteq> []"
    then show "m (if a = [] then Some c else Some (last a)) (z @ post) = None"
      using Cons.prems[of "c # a" z] by (cases "a = []") simp_all
  qed
  then show ?case using n by (simp add: nth_opt_cons_first split_on_ne)
qed

lemma search_finds_at:
  "m (if a = [] then prev else Some (last a)) z \<noteq> None \<Longrightarrow> search m prev (a @ z) \<noteq> None"
proof (induction a arbitrary: prev)
  case Nil
  then obtain r where "m prev z = Some r" by auto
  then have "search m prev z = Some r" by (rule search_here)
  then show ?case by simp
next
  case (Cons c a)
  have "search m (Some c) (a @ z) \<noteq> None"
    by (rule Cons.IH) (use Cons.prems in \<open>simp split: if_splits\<close>)
  then show ?case by (cases "m prev (c # a @ z)") simp_all
qed


lemma lower_update_ord: "toLowerCase ''update ORD-'' = ''update ord-''"
  by code_simp

lemma lower_post: "toLowerCase '' add juice and status shipped'' = '' add juice and status shipped''"
  by code_simp

lemma liti_whole_upper: "liti w z = Some [] \<Longrightarrow> toUpperCase z = toUpperCase w"
  using liti_Some[of w z "[]"] by auto

lemma ends_with_append: "ends_with w (a @ w)"
  by (simp add: ends_with_def)

lemma upper_track: "toUpperCase ''track'' = ''TRACK''"
  by code_simp

lemma no_track_suffix:
  assumes "list_all is_updigit run" "\<not> ends_with ''TRACK'' run" "toLowerCase run = a @ z"
  shows "liti ''track'' z \<noteq> Some []"
proof
  assume "liti ''track'' z = Some []"
  then have "toUpperCase z = ''TRACK''" using liti_whole_upper upper_track by simp
  moreover have "toUpperCase (toLowerCase run) = run"
    by (rule toUpperCase_lower_updigit[OF assms(1)])
  ultimately have "run = toUpperCase a @ ''TRACK''"
    using assms(3) by (simp add: toUpperCase_append)
  then have "ends_with ''TRACK'' run" using ends_with_append[of "''TRACK''" "toUpperCase a"] by simp
  with assms(2) show False by simp
qed

lemma parseIntent_update_text:
  assumes "list_all is_updigit run" "\<not> ends_with ''TRACK'' run"
  shows "intent (parseIntent (''update ORD-'' @ run @ '' add juice and status shipped'')) =
           ''update_order''"
proof -
  define L where "L = toLowerCase run"
  have "list_all is_alnum L"
    unfolding L_def using assms(1) by (intro lower_alnum) (simp add: list_all_iff updigit_alnum)
  then have ns: "CHR '' '' \<notin> set L" by (rule alnum_no_space)
  have nz: "CHR '' '' \<notin> set z" if "L = a @ z" for a z using ns that by simp
  have t: "toLowerCase (''update ORD-'' @ run @ '' add juice and status shipped'') =
      ''update ord-'' @ L @ '' add juice and status shipped''"
    by (simp only: toLowerCase_append lower_update_ord lower_post L_def)
  have nt: "liti ''track'' z \<noteq> Some []" if "L = a @ z" for a z
    using no_track_suffix[OF assms(1) assms(2)] that by (simp add: L_def)
  have k1: "search re_create p (L @ '' add juice and status shipped'') = None" for p
    by (subst search_skip)
       (simp_all add: re_create_def orelse_def lit_space nz)
  have c1: "\<not> test re_create (''update ord-'' @ L @ '' add juice and status shipped'')"
    by (simp add: test_def matches_def re_create_def orelse_def k1)
  have k2: "search re_track p (L @ '' add juice and status shipped'') = None" for p
  proof (subst search_skip)
    fix a z assume az: "L = a @ z" "z \<noteq> []"
    show "re_track (if a = [] then p else Some (last a)) (z @ '' add juice and status shipped'') = None"
      using nt[OF az(1)] by (simp add: re_track_def liti_space nz[OF az(1)])
  next
    show "search re_track (if L = [] then p else Some (last L)) '' add juice and status shipped'' = None"
      by (simp add: re_track_def orelse_def run1_def lower_char_def is_upper_def charCode_def)
  qed
  have c2: "matches re_track (''update ord-'' @ L @ '' add juice and status shipped'') = None"
    by (simp add: matches_def re_track_def orelse_def k2 lower_char_def is_upper_def charCode_def)
  have k3: "search re_where p (L @ '' add juice and status shipped'') = None" for p
    by (subst search_skip)
       (simp_all add: re_where_def orelse_def liti_space nz lower_char_def is_upper_def charCode_def)
  have c3: "matches re_where (''update ord-'' @ L @ '' add juice and status shipped'') = None"
    by (simp add: matches_def re_where_def orelse_def k3 lower_char_def is_upper_def charCode_def)
  have k4: "search re_next p (L @ '' add juice and status shipped'') = None" for p
    by (subst search_skip)
       (simp_all add: re_next_def orelse_def lit_space nz)
  have c4: "\<not> test re_next (''update ord-'' @ L @ '' add juice and status shipped'')"
    by (simp add: test_def matches_def re_next_def orelse_def k4)
  have k5: "search re_list p (L @ '' add juice and status shipped'') = None" for p
    by (subst search_skip)
       (simp_all add: re_list_def orelse_def lit_space nz)
  have c5: "\<not> test re_list (''update ord-'' @ L @ '' add juice and status shipped'')"
    by (simp add: test_def matches_def re_list_def orelse_def k5)
  have k6: "search re_cancel p (L @ '' add juice and status shipped'') = None" for p
    by (subst search_skip)
       (simp_all add: re_cancel_def lit_b_def orelse_def lit_space nz)
  have c6: "\<not> test re_cancel (''update ord-'' @ L @ '' add juice and status shipped'')"
    by (simp add: test_def matches_def re_cancel_def lit_b_def orelse_def k6)
  have k7: "search re_delete p (L @ '' add juice and status shipped'') = None" for p
    by (subst search_skip)
       (simp_all add: re_delete_def lit_b_def orelse_def lit_space nz)
  have c7: "\<not> test re_delete (''update ord-'' @ L @ '' add juice and status shipped'')"
    by (simp add: test_def matches_def re_delete_def lit_b_def orelse_def k7)
  have k8: "search re_address p (L @ '' add juice and status shipped'') = None" for p
    by (subst search_skip)
       (simp_all add: re_address_def orelse_def lit_space nz)
  have c8: "\<not> test re_address (''update ord-'' @ L @ '' add juice and status shipped'')"
    by (simp add: test_def matches_def re_address_def orelse_def k8)
  have w: "is_word CHR ''u''" "is_word CHR ''e''" by code_simp+
  have "re_update None (''update ord-'' @ X) \<noteq> None" for X
    by (simp add: re_update_def lit_b_def boundary_def word_before_def word_after_def
        orelse_def w space_not_alnum)
  then obtain y where
    "re_update None (''update ord-'' @ L @ '' add juice and status shipped'') = Some y"
    by blast
  then have "search re_update None (''update ord-'' @ L @ '' add juice and status shipped'') = Some y"
    by (rule search_here)
  then have c9: "test re_update (''update ord-'' @ L @ '' add juice and status shipped'')"
    unfolding test_def matches_def by (simp del: search.simps)
  show ?thesis
    by (simp add: parseIntent_def Let_def t c1 c2 c3 c4 c5 c6 c7 c8 c9 orelse_def
        del: append.simps)
qed


lemma updigit_word: "list_all is_updigit s \<Longrightarrow> list_all is_word s"
  by (simp add: list_all_iff updigit_alnum is_alnum_word)

lemma takeWhile_run:
  assumes "list_all P run" "\<not> P c"
  shows "takeWhile P (run @ c # ys) = run" "dropWhile P (run @ c # ys) = c # ys"
  using assms by (simp_all add: list_all_iff takeWhile_append2 dropWhile_append2)

lemma lower_ORD_chars:
  "lower_char CHR ''O'' = CHR ''o''" "lower_char CHR ''R'' = CHR ''r''"
  "lower_char CHR ''D'' = CHR ''d''" "lower_char CHR ''-'' = CHR ''-''"
  by code_simp+

lemma lower_id: "\<not> is_upper c \<Longrightarrow> lower_char c = c"
  by (simp add: lower_char_def)

lemma search_update_prefix:
  "search re_ord_token None (''update '' @ z) = search re_ord_token (Some CHR '' '') z"
  by (simp add: re_ord_token_def lower_ORD_chars lower_id is_upper_def charCode_def)

lemma extract_update_text:
  assumes "run \<noteq> []" "list_all is_updigit run"
  shows "extractTrackingIdFrom (''update ORD-'' @ run @ '' add juice and status shipped'') =
           Some (''ORD-'' @ run)"
proof -
  define ys where "ys = ''add juice and status shipped''"
  define z where "z = ''ORD-'' @ run @ CHR '' '' # ys"
  have al: "list_all is_alnum run" using assms(2) by (simp add: list_all_iff updigit_alnum)
  have tw: "takeWhile is_alnum (run @ CHR '' '' # ys) = run"
    "dropWhile is_alnum (run @ CHR '' '' # ys) = CHR '' '' # ys"
    using takeWhile_run[OF al space_not_alnum(1)] by simp_all
  have "is_word CHR ''O''" by code_simp
  then have b1: "boundary (Some CHR '' '') z"
    by (simp add: z_def boundary_def word_before_def word_after_def space_not_alnum)
  have l: "liti ''ORD-'' z = Some (run @ CHR '' '' # ys)"
    unfolding z_def by (rule liti_self)
  have "is_word (last run)" using al assms(1) by (simp add: list_all_iff is_alnum_word)
  then have b2: "boundary (Some (last run)) (CHR '' '' # ys)"
    by (simp add: boundary_def word_before_def word_after_def space_not_alnum)
  have "re_ord_token (Some CHR '' '') z = Some (take 4 z @ takeWhile is_alnum (run @ CHR '' '' # ys))"
    by (rule re_ord_token_at[OF b1 l]) (simp_all add: tw assms(1) b2)
  then have "re_ord_token (Some CHR '' '') z = Some (''ORD-'' @ run)"
    by (simp add: tw z_def)
  then have "search re_ord_token (Some CHR '' '') z = Some (''ORD-'' @ run)"
    by (rule search_here)
  then have "matches re_ord_token (''update '' @ z) = Some (''ORD-'' @ run)"
    by (simp only: matches_def search_update_prefix)
  moreover have "toUpperCase (''ORD-'' @ run) = ''ORD-'' @ run"
    by (simp only: toUpperCase_append upper_ORD toUpperCase_updigit[OF assms(2)])
  moreover have "''update ORD-'' @ run @ '' add juice and status shipped'' = ''update '' @ z"
    by (simp add: z_def ys_def)
  ultimately show ?thesis by (simp only: extractTrackingIdFrom_def option.map)
qed

lemma lit_imp_liti: "lit w s = Some r \<Longrightarrow> liti w s = Some r"
  by (induction w s rule: lit.induct) (auto split: if_splits)

lemma lit_b_interior:
  assumes "is_word c" "is_word (hd z)" "z \<noteq> []"
  shows "lit_b ci w (Some c) (z @ post) = None"
  using assms by (cases z) (simp_all add: lit_b_def boundary_def word_before_def word_after_def)

lemma lit_b_run_None:
  assumes "list_all is_word L" "CHR '' '' \<notin> set w" "w \<noteq> []"
    "(if ci then liti w L else lit w L) \<noteq> Some []"
    "L = a @ z" "z \<noteq> []"
  shows "lit_b ci w (if a = [] then prev else Some (last a)) (z @ CHR '' '' # ys) = None"
proof (cases "a = []")
  case False
  then have "is_word (last a)" using assms(1) assms(5) by (simp add: list_all_iff)
  moreover have "is_word (hd z)" using assms(1) assms(5) assms(6) by (simp add: list_all_iff)
  ultimately show ?thesis using False lit_b_interior[OF _ _ assms(6)] by simp
next
  case True
  then have z: "z = L" using assms(5) by simp
  let ?f = "\<lambda>s. if ci then liti w s else lit w s"
  show ?thesis
  proof (cases "?f L")
    case None
    then have "?f (L @ CHR '' '' # ys) = None"
      using assms(2) by (auto simp add: lit_nospace liti_nospace split: if_splits)
    then show ?thesis by (simp add: lit_b_def z)
  next
    case (Some r)
    then have li: "liti w L = Some r" by (auto split: if_splits intro: lit_imp_liti)
    from liti_Some[OF li] obtain m where m: "L = m @ r" "length m = length w" by blast
    have r: "r \<noteq> []" using Some assms(4) by auto
    have mne: "m \<noteq> []" using m(2) assms(3) by auto
    have "is_word (last m)" using assms(1) m(1) mne by (simp add: list_all_iff)
    moreover have "is_word (hd r)" using assms(1) m(1) r by (simp add: list_all_iff)
    moreover have "take (length w) (L @ CHR '' '' # ys) = m" using m by simp
    moreover have "?f (L @ CHR '' '' # ys) = Some (r @ CHR '' '' # ys)"
      using Some assms(2) by (auto simp add: lit_nospace liti_nospace split: if_splits)
    ultimately show ?thesis
      using r by (cases r) (simp_all add: lit_b_def z boundary_def word_before_def word_after_def)
  qed
qed


lemma lower_updigit_word: "list_all is_updigit run \<Longrightarrow> list_all is_word (toLowerCase run)"
  by (simp add: list_all_iff toLowerCase_def updigit_alnum is_alnum_lower_char is_alnum_word)

lemma lit_whole: "lit w s = Some [] \<longleftrightarrow> s = w"
  by (simp add: lit_Some_iff)

lemma upper_words:
  "toUpperCase ''delivered'' = ''DELIVERED''" "toUpperCase ''processing'' = ''PROCESSING''"
  "toUpperCase ''remove'' = ''REMOVE''" "toUpperCase ''add'' = ''ADD''"
  by code_simp+

lemma lower_run_not:
  assumes "list_all is_updigit run" "run \<noteq> toUpperCase w"
  shows "toLowerCase run \<noteq> w"
  using toUpperCase_lower_updigit[OF assms(1)] assms(2) by auto

lemma shipped_found:
  "lit_b False ''shipped'' (Some CHR '' '') ''shipped'' \<noteq> None"
  by code_simp

lemma extractStatus_update_text:
  assumes "run \<noteq> []" "list_all is_updigit run" "run \<noteq> ''DELIVERED''" "run \<noteq> ''PROCESSING''"
  shows "extractStatus (''update ORD-'' @ run @ '' add juice and status shipped'') =
           Some ''shipped''"
proof -
  define L where "L = toLowerCase run"
  have Lw: "list_all is_word L" unfolding L_def by (rule lower_updigit_word[OF assms(2)])
  have Lne: "L \<noteq> []" using assms(1) by (simp add: L_def toLowerCase_def)
  have t: "toLowerCase (''update ORD-'' @ run @ '' add juice and status shipped'') =
      ''update ord-'' @ L @ '' add juice and status shipped''"
    by (simp only: toLowerCase_append lower_update_ord lower_post L_def)
  have n1: "lit ''delivered'' L \<noteq> Some []"
    using lower_run_not[OF assms(2), of "''delivered''"] assms(3)
    by (simp add: lit_whole upper_words L_def)
  have n2: "lit ''processing'' L \<noteq> Some []"
    using lower_run_not[OF assms(2), of "''processing''"] assms(4)
    by (simp add: lit_whole upper_words L_def)
  have k1: "search (lit_b False ''delivered'') p (L @ '' add juice and status shipped'') = None" for p
  proof (subst search_skip)
    fix a z assume "L = a @ z" "z \<noteq> []"
    then show "lit_b False ''delivered'' (if a = [] then p else Some (last a))
        (z @ '' add juice and status shipped'') = None"
      using n1 by (intro lit_b_run_None[OF Lw]) simp_all
  next
    show "search (lit_b False ''delivered'') (if L = [] then p else Some (last L))
        '' add juice and status shipped'' = None"
      by (simp add: lit_b_def)
  qed
  have c1: "\<not> test (lit_b False ''delivered'') (''update ord-'' @ L @ '' add juice and status shipped'')"
    by (simp add: test_def matches_def lit_b_def k1)
  have k2: "search (lit_b False ''processing'') p (L @ '' add juice and status shipped'') = None" for p
  proof (subst search_skip)
    fix a z assume "L = a @ z" "z \<noteq> []"
    then show "lit_b False ''processing'' (if a = [] then p else Some (last a))
        (z @ '' add juice and status shipped'') = None"
      using n2 by (intro lit_b_run_None[OF Lw]) simp_all
  next
    show "search (lit_b False ''processing'') (if L = [] then p else Some (last L))
        '' add juice and status shipped'' = None"
      by (simp add: lit_b_def)
  qed
  have c2: "\<not> test (lit_b False ''processing'') (''update ord-'' @ L @ '' add juice and status shipped'')"
    by (simp add: test_def matches_def lit_b_def k2)
  have "search (lit_b False ''shipped'') None
      ((''update ord-'' @ L @ '' add juice and status '') @ ''shipped'') \<noteq> None"
    by (rule search_finds_at) (simp add: shipped_found)
  then have c3: "test (lit_b False ''shipped'') (''update ord-'' @ L @ '' add juice and status shipped'')"
    by (simp add: test_def matches_def del: search.simps)
  show ?thesis
    by (simp add: extractStatus_def Let_def t c1 c2 c3 del: append.simps)
qed


lemma occurs_suffix: "lit w z \<noteq> None \<Longrightarrow> occurs w (a @ z)"
proof (induction a)
  case Nil
  then show ?case by (cases z; cases w) auto
next
  case (Cons x a)
  then show ?case by simp
qed

lemma liti_updigit:
  assumes "list_all is_updigit z" "liti w z = Some r"
  shows "lit (toUpperCase w) z = Some r"
proof -
  from liti_Some[OF assms(2)] obtain m where m: "z = m @ r" "toUpperCase m = toUpperCase w"
    by blast
  have "list_all is_updigit m" using assms(1) m(1) by simp
  then have "toUpperCase m = m" by (rule toUpperCase_updigit)
  with m show ?thesis by (simp add: lit_Some_iff)
qed

lemma no_occurrence:
  assumes "list_all is_updigit run" "\<not> occurs (toUpperCase w) run" "run = a @ z"
  shows "liti w z = None"
proof (cases "liti w z")
  case (Some r)
  have "list_all is_updigit z" using assms(1) assms(3) by simp
  from liti_updigit[OF this Some] have "lit (toUpperCase w) z \<noteq> None" by simp
  then have "occurs (toUpperCase w) (a @ z)" by (rule occurs_suffix)
  with assms(2) assms(3) show ?thesis by simp
qed simp

lemma split_on_prev:
  "(\<And>p q s. m p s = m q s) \<Longrightarrow> split_on m k p s = split_on m k q s"
proof (induction m k p s arbitrary: q rule: split_on.induct)
  case (1 m k prev)
  then show ?case by simp
next
  case (2 m k prev c cs)
  then show ?case by simp
next
  case (3 m prev c cs)
  have e: "m prev (c # cs) = m q (c # cs)" by (rule "3.prems")
  show ?case
  proof (cases "m q (c # cs)")
    case None
    then show ?thesis using e by simp
  next
    case (Some r)
    then show ?thesis using e by simp
  qed
qed

lemma cons_first_ne: "cons_first c ps \<noteq> []"
  by (cases ps) (simp_all add: cons_first_def)

lemma add_found: "lit_b True ''add'' (Some CHR '' '') ''add juice and status shipped'' \<noteq> None"
  by code_simp

lemma add_split_tail:
  "nth_opt (split_on (alts_i [''add'']) 0 None '' add juice and status shipped'') (Suc 0) =
     Some '' juice and status shipped''"
  by code_simp

lemma add_tail_items:
  "item_names (first_piece (split (alts_i [''remove'', ''status'', ''assign'', ''pickup''])
       '' juice and status shipped'')) = [''juice'']"
  by code_simp

lemma add_items_update_text:
  assumes "list_all is_updigit run" "\<not> occurs ''ADD'' run" "item d = ''bread''"
  shows "add_items (''update ORD-'' @ run @ '' add juice and status shipped'') d =
           Some ''bread, juice''"
proof -
  define tx where "tx = ''update ORD-'' @ run @ '' add juice and status shipped''"
  have ns: "CHR '' '' \<notin> set ''add''" by simp
  have "search (lit_b True ''add'') None ((''update ORD-'' @ run @ '' '') @ ''add juice and status shipped'')
      \<noteq> None"
    by (rule search_finds_at) (simp add: add_found)
  then have t1: "test (lit_b True ''add'') tx"
    by (simp add: test_def matches_def tx_def del: search.simps)
  have na: "liti ''add'' z = None" if "run = a @ z" for a z
    using no_occurrence[OF assms(1) _ that, of "''add''"] assms(2) by (simp add: upper_words)
  have sk: "nth_opt (split_on (alts_i [''add'']) 0 p (run @ '' add juice and status shipped'')) (Suc 0) =
      nth_opt (split_on (alts_i [''add'']) 0 (if run = [] then p else Some (last run))
                 '' add juice and status shipped'') (Suc 0)" for p
  proof (rule split_skip)
    fix a z assume "run = a @ z" "z \<noteq> []"
    then show "alts_i [''add''] (if a = [] then p else Some (last a))
        (z @ '' add juice and status shipped'') = None"
      using na[of a z] by (simp add: alts_i_def orelse_def liti_nospace)
  qed
  have pr: "split_on (alts_i [''add'']) 0 p s = split_on (alts_i [''add'']) 0 None s" for p s
    by (rule split_on_prev) (simp add: alts_i_def)
  have "nth_opt (split_on (alts_i [''add'']) 0 None (''update ORD-'' @ X)) (Suc 0) =
      nth_opt (split_on (alts_i [''add'']) 0 (Some CHR ''-'') X) (Suc 0)" for X
    by (simp add: alts_i_def orelse_def lower_ORD_chars lower_id is_upper_def charCode_def
        nth_opt_cons_first split_on_ne cons_first_ne)
  then have "nth_opt (split (alts_i [''add'']) tx) (Suc 0) = Some '' juice and status shipped''"
    unfolding split_def tx_def by (simp only: sk pr[of "if run = [] then _ else _"] add_split_tail)
  then have t2: "second_or_empty (split (alts_i [''add'']) tx) = '' juice and status shipped''"
    by (simp add: second_or_empty_def)
  show ?thesis
    unfolding tx_def[symmetric] add_items_def Let_def
    by (simp only: t1 t2 add_tail_items assms(3) if_True) simp
qed


lemma remove_found_nothing:
  "item_names (first_piece (split (alts_i [''add'', ''status'', ''assign'', ''pickup''])
     (second_or_empty (split (alts_i [''remove''])
        (''update ORD-'' @ ''REMOVE'' @ '' add juice and status shipped''))))) = []"
  by code_simp

lemma remove_tail:
  "search (lit_b True ''remove'') q '' add juice and status shipped'' = None"
  by (simp add: lit_b_def lower_id is_upper_def charCode_def)

lemma remove_prefix:
  "search (lit_b True ''remove'') None (''update ORD-'' @ X) =
   search (lit_b True ''remove'') (Some CHR ''-'') X"
  by (simp add: lit_b_def lower_ORD_chars lower_id is_upper_def charCode_def)

lemma remove_items_update_text:
  assumes "list_all is_updigit run"
  shows "remove_items rt (''update ORD-'' @ run @ '' add juice and status shipped'') d = Done None"
proof (cases "run = ''REMOVE''")
  case True
  show ?thesis
    unfolding True remove_items_def Let_def remove_found_nothing by simp
next
  case False
  have w: "list_all is_word run" by (rule updigit_word[OF assms])
  have n: "liti ''remove'' run \<noteq> Some []"
  proof
    assume "liti ''remove'' run = Some []"
    from liti_updigit[OF assms this] have "run = ''REMOVE''"
      by (simp add: upper_words lit_whole)
    with False show False by simp
  qed
  have k: "search (lit_b True ''remove'') p (run @ '' add juice and status shipped'') = None" for p
  proof (subst search_skip)
    fix a z assume "run = a @ z" "z \<noteq> []"
    then show "lit_b True ''remove'' (if a = [] then p else Some (last a))
        (z @ '' add juice and status shipped'') = None"
      using n by (intro lit_b_run_None[OF w]) simp_all
  next
    show "search (lit_b True ''remove'') (if run = [] then p else Some (last run))
        '' add juice and status shipped'' = None"
      by (rule remove_tail)
  qed
  have "\<not> test (lit_b True ''remove'') (''update ORD-'' @ run @ '' add juice and status shipped'')"
    unfolding test_def matches_def remove_prefix k by simp
  then show ?thesis by (simp add: remove_items_def del: append.simps)
qed

lemma find_from_Some:
  "find_from k P ds = Some (i, d) \<Longrightarrow> k \<le> i \<and> i - k < length ds \<and> ds ! (i - k) = d \<and> P d"
proof (induction ds arbitrary: k)
  case Nil
  then show ?case by simp
next
  case (Cons x ds)
  show ?case
  proof (cases "P x")
    case True
    with Cons.prems show ?thesis by simp
  next
    case False
    with Cons.prems have "find_from (Suc k) P ds = Some (i, d)" by simp
    from Cons.IH[OF this]
    have r: "Suc k \<le> i" "i - Suc k < length ds" "ds ! (i - Suc k) = d" "P d" by simp_all
    from r(1) have "i - k = Suc (i - Suc k)" by arith
    with r show ?thesis by simp
  qed
qed

lemma findOne_Some: "findOne P ds = Some (i, d) \<Longrightarrow> i < length ds \<and> ds ! i = d \<and> P d"
  using find_from_Some[of 0 P ds i d] by (simp add: findOne_def)


lemma extract_update_any:
  assumes "alnum_id T"
  shows "extractTrackingIdFrom (''update '' @ T @ '' add juice and status shipped'') =
           Some (toUpperCase T)"
proof -
  define run where "run = drop 4 T"
  define ys where "ys = ''add juice and status shipped''"
  define z where "z = ''ORD-'' @ run @ CHR '' '' # ys"
  from assms have a: "take 4 T = ''ORD-''" "run \<noteq> []" "list_all is_alnum run"
    by (simp_all add: alnum_id_def run_def)
  have T: "T = ''ORD-'' @ run" using a(1) append_take_drop_id[of 4 T] by (simp add: run_def)
  have tw: "takeWhile is_alnum (run @ CHR '' '' # ys) = run"
    "dropWhile is_alnum (run @ CHR '' '' # ys) = CHR '' '' # ys"
    using takeWhile_run[OF a(3) space_not_alnum(1)] by simp_all
  have "is_word CHR ''O''" by code_simp
  then have b1: "boundary (Some CHR '' '') z"
    by (simp add: z_def boundary_def word_before_def word_after_def space_not_alnum)
  have l: "liti ''ORD-'' z = Some (run @ CHR '' '' # ys)"
    unfolding z_def by (rule liti_self)
  have "is_word (last run)" using a(2) a(3) by (simp add: list_all_iff is_alnum_word)
  then have b2: "boundary (Some (last run)) (CHR '' '' # ys)"
    by (simp add: boundary_def word_before_def word_after_def space_not_alnum)
  have "re_ord_token (Some CHR '' '') z = Some (take 4 z @ takeWhile is_alnum (run @ CHR '' '' # ys))"
    by (rule re_ord_token_at[OF b1 l]) (simp_all add: tw a(2) b2)
  then have "re_ord_token (Some CHR '' '') z = Some (''ORD-'' @ run)"
    by (simp add: tw z_def)
  then have "search re_ord_token (Some CHR '' '') z = Some (''ORD-'' @ run)"
    by (rule search_here)
  then have "matches re_ord_token (''update '' @ z) = Some T"
    by (simp only: matches_def search_update_prefix T)
  moreover have "''update '' @ T @ '' add juice and status shipped'' = ''update '' @ z"
    by (simp add: z_def ys_def T)
  ultimately show ?thesis by (simp only: extractTrackingIdFrom_def option.map)
qed


section \<open>Facts about the search loop and the id token\<close>

lemma search_leftmost:
  "search m prev s = Some r \<Longrightarrow>
   \<exists>a z. s = a @ z \<and> m (if a = [] then prev else Some (last a)) z = Some r \<and>
         (\<forall>a' z'. s = a' @ z' \<and> length a' < length a \<longrightarrow>
                  m (if a' = [] then prev else Some (last a')) z' = None)"
proof (induction s arbitrary: prev)
  case Nil
  then have "m prev [] = Some r" by simp
  then have "[] = [] @ [] \<and> m (if [] = [] then prev else Some (last [])) [] = Some r \<and>
         (\<forall>a' z'. [] = a' @ z' \<and> length a' < length ([] :: string) \<longrightarrow>
                  m (if a' = [] then prev else Some (last a')) z' = None)"
    by simp
  then show ?case by (rule exI[of _ "[]", OF exI[of _ "[]"]])
next
  case (Cons c cs)
  show ?case
  proof (cases "m prev (c # cs)")
    case (Some r')
    with Cons.prems have "r' = r" by simp
    with Some have "c # cs = [] @ (c # cs) \<and>
        m (if [] = [] then prev else Some (last [])) (c # cs) = Some r \<and>
        (\<forall>a' z'. c # cs = a' @ z' \<and> length a' < length ([] :: string) \<longrightarrow>
                  m (if a' = [] then prev else Some (last a')) z' = None)"
      by simp
    then show ?thesis by (rule exI[of _ "[]", OF exI[of _ "c # cs"]])
  next
    case None
    with Cons.prems have "search m (Some c) cs = Some r" by simp
    from Cons.IH[OF this] obtain a z where az: "cs = a @ z \<and>
      m (if a = [] then Some c else Some (last a)) z = Some r \<and>
      (\<forall>a' z'. cs = a' @ z' \<and> length a' < length a \<longrightarrow>
                  m (if a' = [] then Some c else Some (last a')) z' = None)"
      by (elim exE)
    have 1: "c # cs = (c # a) @ z" using az by simp
    have 2: "m (if c # a = [] then prev else Some (last (c # a))) z = Some r"
      using az by (cases "a = []") simp_all
    have 3: "m (if a' = [] then prev else Some (last a')) z' = None"
      if "c # cs = a' @ z' \<and> length a' < length (c # a)" for a' z'
    proof (cases a')
      case Nil
      with that None show ?thesis by simp
    next
      case (Cons x a'')
      with that have "cs = a'' @ z' \<and> length a'' < length a" "x = c" by simp_all
      with az have "m (if a'' = [] then Some c else Some (last a'')) z' = None" by blast
      then show ?thesis using Cons \<open>x = c\<close> by (cases "a'' = []") simp_all
    qed
    have "c # cs = (c # a) @ z \<and>
        m (if c # a = [] then prev else Some (last (c # a))) z = Some r \<and>
        (\<forall>a' z'. c # cs = a' @ z' \<and> length a' < length (c # a) \<longrightarrow>
                  m (if a' = [] then prev else Some (last a')) z' = None)"
      using 1 2 3 by (intro conjI allI impI)
    then show ?thesis by (rule exI[of _ "c # a", OF exI[of _ z]])
  qed
qed

lemma upper_O_word: "upper_char c = CHR ''O'' \<Longrightarrow> is_word c"
proof (cases "is_lower c")
  case True
  then show ?thesis by (simp add: is_word_def is_alnum_def is_letter_def)
next
  case False
  assume "upper_char c = CHR ''O''"
  with False have "c = CHR ''O''" by (simp add: upper_char_def)
  moreover have "is_word CHR ''O''" by code_simp
  ultimately show ?thesis by simp
qed

lemma ORD_prefix:
  assumes "toUpperCase pre = ''ORD-''"
  shows "length pre = 4" "pre \<noteq> []" "is_word (hd pre)"
proof -
  have "length (toUpperCase pre) = 4" unfolding assms by simp
  then show l: "length pre = 4" by (simp add: toUpperCase_def)
  then show ne: "pre \<noteq> []" by auto
  then obtain c cs where p: "pre = c # cs" by (cases pre) auto
  with assms have "upper_char c = CHR ''O''" by (simp add: toUpperCase_def)
  then show "is_word (hd pre)" using p by (simp add: upper_O_word)
qed

lemma takeWhile_whole:
  assumes "list_all P run" "\<not> (b \<noteq> [] \<and> P (hd b))"
  shows "takeWhile P (run @ b) = run" "dropWhile P (run @ b) = b"
proof -
  show "takeWhile P (run @ b) = run"
  proof (cases b)
    case Nil
    with assms(1) show ?thesis by (simp add: list_all_iff)
  next
    case (Cons c ys)
    with assms(2) have "\<not> P c" by simp
    from takeWhile_run(1)[OF assms(1) this] Cons show ?thesis by simp
  qed
  show "dropWhile P (run @ b) = b"
  proof (cases b)
    case Nil
    with assms(1) show ?thesis by (simp add: list_all_iff)
  next
    case (Cons c ys)
    with assms(2) have "\<not> P c" by simp
    from takeWhile_run(2)[OF assms(1) this] Cons show ?thesis by simp
  qed
qed

lemma token_matches:
  assumes "ord_token a tok b"
  shows "re_ord_token (if a = [] then None else Some (last a)) (tok @ b) = Some tok"
proof -
  define pre where "pre = take 4 tok"
  define run where "run = drop 4 tok"
  from assms have t: "toUpperCase pre = ''ORD-''" "run \<noteq> []" "list_all is_alnum run"
    and ba: "\<not> (a \<noteq> [] \<and> is_word (last a))" and bb: "\<not> (b \<noteq> [] \<and> is_word (hd b))"
    by (simp_all add: ord_token_def pre_def run_def)
  note p = ORD_prefix[OF t(1)]
  have tok: "tok = pre @ run" by (simp add: pre_def run_def)
  have nb: "\<not> (b \<noteq> [] \<and> is_alnum (hd b))" using bb by (auto simp add: is_word_def)
  note tw = takeWhile_whole[OF t(3) nb]
  have wa: "word_after (tok @ b)"
    using p(2) p(3) by (cases pre) (simp_all add: tok word_after_def)
  have wb: "\<not> word_before (if a = [] then None else Some (last a))"
    using ba by (auto simp add: word_before_def)
  have b1: "boundary (if a = [] then None else Some (last a)) (tok @ b)"
    using wa wb by (simp add: boundary_def)
  have l: "liti ''ORD-'' (tok @ b) = Some (run @ b)"
    unfolding tok append_assoc by (rule liti_upper_prefix) (simp add: t(1) upper_ORD)
  have "is_word (last run)" using t(2) t(3) by (simp add: list_all_iff is_alnum_word)
  moreover have "\<not> word_after b" using bb by (cases b) (simp_all add: word_after_def)
  ultimately have b2: "boundary (Some (last run)) b"
    by (simp add: boundary_def word_before_def)
  have "re_ord_token (if a = [] then None else Some (last a)) (tok @ b) =
      Some (take 4 (tok @ b) @ takeWhile is_alnum (run @ b))"
    by (rule re_ord_token_at[OF b1 l]) (simp_all add: tw t(2) b2)
  moreover have "take 4 (tok @ b) = pre" using p(1) by (simp add: tok)
  ultimately show ?thesis by (simp add: tw tok)
qed

lemma match_is_token:
  assumes "re_ord_token prev z = Some m"
  shows "\<exists>b. z = m @ b \<and> toUpperCase (take 4 m) = ''ORD-'' \<and> drop 4 m \<noteq> [] \<and>
             list_all is_alnum (drop 4 m) \<and> \<not> word_before prev \<and>
             \<not> (b \<noteq> [] \<and> is_word (hd b))"
proof -
  from assms obtain r where bd: "boundary prev z" and r: "liti ''ORD-'' z = Some r"
    and run: "takeWhile is_alnum r \<noteq> []"
    and b2: "boundary (Some (last (takeWhile is_alnum r))) (dropWhile is_alnum r)"
    and m: "m = take 4 z @ takeWhile is_alnum r"
    by (auto simp add: re_ord_token_def Let_def split: if_splits option.splits)
  from liti_Some[OF r] obtain pre where pre: "z = pre @ r" "length pre = 4"
      "toUpperCase pre = toUpperCase ''ORD-''" by auto
  have up: "toUpperCase pre = ''ORD-''" using pre(3) by (simp add: upper_ORD)
  note p = ORD_prefix[OF up]
  define rn where "rn = takeWhile is_alnum r"
  define rest where "rest = dropWhile is_alnum r"
  have rr: "r = rn @ rest" by (simp add: rn_def rest_def)
  have m': "m = pre @ rn" using m pre(1) pre(2) by (simp add: rn_def)
  have z: "z = m @ rest" using pre(1) rr m' by simp
  have al: "list_all is_alnum rn"
    by (simp add: list_all_iff rn_def) (meson set_takeWhileD)
  have ne: "rn \<noteq> []" using run by (simp add: rn_def)
  have "word_after z" using p(2) p(3) pre(1) by (cases pre) (simp_all add: word_after_def)
  with bd have wb: "\<not> word_before prev" by (simp add: boundary_def)
  have "is_word (last rn)" using al ne by (simp add: list_all_iff is_alnum_word)
  with b2 have "\<not> word_after rest" by (simp add: boundary_def word_before_def rn_def rest_def)
  then have nb: "\<not> (rest \<noteq> [] \<and> is_word (hd rest))"
    by (cases rest) (simp_all add: word_after_def)
  have "take 4 m = pre" "drop 4 m = rn" using pre(2) by (simp_all add: m')
  with z up ne al wb nb show ?thesis by auto
qed

lemma alnum_upper_updigit: "is_alnum c \<Longrightarrow> is_updigit (upper_char c)"
  using upper_char_of_lower[of c]
  by (cases "is_lower c") (auto simp add: is_updigit_def is_alnum_def is_letter_def upper_char_def)

lemma upper_id_toUpperCase:
  assumes "toUpperCase (take 4 m) = ''ORD-''" "drop 4 m \<noteq> []" "list_all is_alnum (drop 4 m)"
  shows "upper_id (toUpperCase m)"
proof -
  have "take 4 (toUpperCase m) = ''ORD-''"
    using assms(1) by (simp add: toUpperCase_def take_map)
  moreover have "drop 4 (toUpperCase m) = toUpperCase (drop 4 m)"
    by (simp add: toUpperCase_def drop_map)
  moreover have "list_all (\<lambda>c. is_upper c \<or> is_digit c) (toUpperCase (drop 4 m))"
    using assms(3) alnum_upper_updigit
    by (auto simp add: list_all_iff toUpperCase_def is_updigit_def)
  moreover have "toUpperCase (drop 4 m) \<noteq> []" using assms(2) by (simp add: toUpperCase_def)
  ultimately show ?thesis by (simp add: upper_id_def)
qed

lemma extract_first_token:
  assumes "extractTrackingIdFrom t = Some r"
  shows "\<exists>a tok b. t = a @ tok @ b \<and> ord_token a tok b \<and> r = toUpperCase tok \<and>
           (\<forall>a' tok' b'. t = a' @ tok' @ b' \<and> ord_token a' tok' b' \<longrightarrow> length a \<le> length a')"
proof -
  from assms have "\<exists>m. matches re_ord_token t = Some m \<and> toUpperCase m = r"
    unfolding extractTrackingIdFrom_def map_option_eq_Some by blast
  then obtain m where m: "search re_ord_token None t = Some m" and r: "toUpperCase m = r"
    unfolding matches_def by blast
  from search_leftmost[OF m] obtain a z where all: "t = a @ z \<and>
    re_ord_token (if a = [] then None else Some (last a)) z = Some m \<and>
    (\<forall>a' z'. t = a' @ z' \<and> length a' < length a \<longrightarrow>
        re_ord_token (if a' = [] then None else Some (last a')) z' = None)"
    by (elim exE)
  then have az: "t = a @ z"
    "re_ord_token (if a = [] then None else Some (last a)) z = Some m"
    by simp_all
  have early: "re_ord_token (if a' = [] then None else Some (last a')) z' = None"
    if "t = a' @ z'" "length a' < length a" for a' z'
    using all that by simp
  from match_is_token[OF az(2)] obtain b where b: "z = m @ b"
    "toUpperCase (take 4 m) = ''ORD-''" "drop 4 m \<noteq> []" "list_all is_alnum (drop 4 m)"
    "\<not> word_before (if a = [] then None else Some (last a))"
    "\<not> (b \<noteq> [] \<and> is_word (hd b))"
    by blast
  have tk: "ord_token a m b"
    using b by (auto simp add: ord_token_def word_before_def split: if_splits)
  have first: "length a \<le> length a'" if "t = a' @ tok' @ b'" "ord_token a' tok' b'" for a' tok' b'
  proof (rule ccontr)
    assume "\<not> length a \<le> length a'"
    then have "length a' < length a" by simp
    from early[OF that(1) this] token_matches[OF that(2)] show False by simp
  qed
  have "t = a @ m @ b" using az(1) b(1) by simp
  with tk r first show ?thesis by blast
qed

lemma extract_token_found:
  assumes "ord_token a tok b"
  shows "extractTrackingIdFrom (a @ tok @ b) \<noteq> None"
proof -
  have "re_ord_token (if a = [] then None else Some (last a)) (tok @ b) \<noteq> None"
    using token_matches[OF assms] by simp
  then have "search re_ord_token None (a @ tok @ b) \<noteq> None" by (rule search_finds_at)
  then show ?thesis by (simp add: extractTrackingIdFrom_def matches_def)
qed

lemma extract_idempotent:
  assumes "extractTrackingIdFrom t = Some r"
  shows "extractTrackingIdFrom r = Some r"
proof -
  from assms have "\<exists>m. matches re_ord_token t = Some m \<and> toUpperCase m = r"
    unfolding extractTrackingIdFrom_def map_option_eq_Some by blast
  then obtain m where m: "matches re_ord_token t = Some m" and r: "toUpperCase m = r"
    by blast
  have "\<exists>p s. re_ord_token p s = Some m"
    using m search_Some[of re_ord_token None t m] by (simp add: matches_def)
  then obtain p s where "re_ord_token p s = Some m" by blast
  from re_ord_token_Some[OF this] obtain run where
    "run \<noteq> []" "list_all is_alnum run" "toUpperCase m = ''ORD-'' @ toUpperCase run" by blast
  then show "extractTrackingIdFrom r = Some r" using r extract_canonical[of run] by simp
qed


section \<open>Facts about the reading of a time of day\<close>

lemma liti_lower: "liti p s = Some r \<longleftrightarrow> (\<exists>w. s = w @ r \<and> toLowerCase w = toLowerCase p)"
proof (induction p s rule: liti.induct)
  case (1 s)
  show ?case by (auto simp add: toLowerCase_def)
next
  case (2 p ps)
  show ?case by (auto simp add: toLowerCase_def)
next
  case (3 p ps c cs)
  show ?case
  proof (cases "lower_char p = lower_char c")
    case True
    have "(\<exists>w. c # cs = w @ r \<and> toLowerCase w = toLowerCase (p # ps)) \<longleftrightarrow>
          (\<exists>w. cs = w @ r \<and> toLowerCase w = toLowerCase ps)"
    proof
      assume "\<exists>w. c # cs = w @ r \<and> toLowerCase w = toLowerCase (p # ps)"
      then obtain w where w: "c # cs = w @ r" "toLowerCase w = toLowerCase (p # ps)" by blast
      from w(2) obtain x w' where x: "w = x # w'" by (cases w) (auto simp add: toLowerCase_def)
      with w have "cs = w' @ r \<and> toLowerCase w' = toLowerCase ps"
        by (simp add: toLowerCase_def)
      then show "\<exists>w. cs = w @ r \<and> toLowerCase w = toLowerCase ps" by blast
    next
      assume "\<exists>w. cs = w @ r \<and> toLowerCase w = toLowerCase ps"
      then obtain w where w: "cs = w @ r" "toLowerCase w = toLowerCase ps" by blast
      with True have "c # cs = (c # w) @ r \<and> toLowerCase (c # w) = toLowerCase (p # ps)"
        by (simp add: toLowerCase_def)
      then show "\<exists>w. c # cs = w @ r \<and> toLowerCase w = toLowerCase (p # ps)" by blast
    qed
    with True "3.IH" show ?thesis by simp
  next
    case False
    have "\<not> (\<exists>w. c # cs = w @ r \<and> toLowerCase w = toLowerCase (p # ps))"
    proof
      assume "\<exists>w. c # cs = w @ r \<and> toLowerCase w = toLowerCase (p # ps)"
      then obtain w where w: "c # cs = w @ r" "toLowerCase w = toLowerCase (p # ps)" by blast
      from w(2) obtain x w' where x: "w = x # w'" by (cases w) (auto simp add: toLowerCase_def)
      with w have "lower_char c = lower_char p" by (simp add: toLowerCase_def)
      with False show False by simp
    qed
    with False show ?thesis by simp
  qed
qed

lemma lower_am_pm: "toLowerCase ''am'' = ''am''" "toLowerCase ''pm'' = ''pm''"
  by code_simp+

lemma space_lower: "is_space c \<Longrightarrow> lower_char c \<noteq> CHR ''a'' \<and> lower_char c \<noteq> CHR ''p''"
proof -
  assume s: "is_space c"
  then have "\<not> is_upper c" by (auto simp add: is_space_def is_upper_def)
  then have "lower_char c = c" by (simp add: lower_char_def)
  moreover have "\<not> is_space CHR ''a''" "\<not> is_space CHR ''p''" by code_simp+
  ultimately show ?thesis using s by auto
qed

lemma dropWhile_spaces_word:
  assumes "list_all is_space sp" "toLowerCase w = ''am'' \<or> toLowerCase w = ''pm''"
  shows "dropWhile is_space (sp @ w @ t) = w @ t"
proof -
  from assms(2) obtain c w' where w: "w = c # w'"
    "lower_char c = CHR ''a'' \<or> lower_char c = CHR ''p''"
    by (cases w) (auto simp add: toLowerCase_def)
  then have "\<not> is_space c" using space_lower[of c] by auto
  then show ?thesis using assms(1) w(1) by (simp add: list_all_iff dropWhile_append3)
qed

lemma tail_am:
  "liti ''am'' (dropWhile is_space t) \<noteq> None \<longleftrightarrow>
   (\<exists>sp w t'. t = sp @ w @ t' \<and> list_all is_space sp \<and> toLowerCase w = ''am'')"
proof
  assume "liti ''am'' (dropWhile is_space t) \<noteq> None"
  then obtain r where "liti ''am'' (dropWhile is_space t) = Some r" by blast
  then obtain w where w: "dropWhile is_space t = w @ r" "toLowerCase w = ''am''"
    unfolding liti_lower lower_am_pm by blast
  have "t = takeWhile is_space t @ w @ r" using w(1) takeWhile_dropWhile_id[of is_space t] by simp
  moreover have "list_all is_space (takeWhile is_space t)"
    by (simp add: list_all_iff) (meson set_takeWhileD)
  ultimately show "\<exists>sp w t'. t = sp @ w @ t' \<and> list_all is_space sp \<and> toLowerCase w = ''am''"
    using w(2) by blast
next
  assume "\<exists>sp w t'. t = sp @ w @ t' \<and> list_all is_space sp \<and> toLowerCase w = ''am''"
  then obtain sp w t' where x: "t = sp @ w @ t'" "list_all is_space sp" "toLowerCase w = ''am''"
    by blast
  have "dropWhile is_space t = w @ t'" unfolding x(1)
    by (rule dropWhile_spaces_word[OF x(2)]) (simp add: x(3))
  moreover have "liti ''am'' (w @ t') = Some t'"
    unfolding liti_lower lower_am_pm using x(3) by blast
  ultimately show "liti ''am'' (dropWhile is_space t) \<noteq> None" by simp
qed

lemma tail_pm:
  "liti ''pm'' (dropWhile is_space t) \<noteq> None \<longleftrightarrow>
   (\<exists>sp w t'. t = sp @ w @ t' \<and> list_all is_space sp \<and> toLowerCase w = ''pm'')"
proof
  assume "liti ''pm'' (dropWhile is_space t) \<noteq> None"
  then obtain r where "liti ''pm'' (dropWhile is_space t) = Some r" by blast
  then obtain w where w: "dropWhile is_space t = w @ r" "toLowerCase w = ''pm''"
    unfolding liti_lower lower_am_pm by blast
  have "t = takeWhile is_space t @ w @ r" using w(1) takeWhile_dropWhile_id[of is_space t] by simp
  moreover have "list_all is_space (takeWhile is_space t)"
    by (simp add: list_all_iff) (meson set_takeWhileD)
  ultimately show "\<exists>sp w t'. t = sp @ w @ t' \<and> list_all is_space sp \<and> toLowerCase w = ''pm''"
    using w(2) by blast
next
  assume "\<exists>sp w t'. t = sp @ w @ t' \<and> list_all is_space sp \<and> toLowerCase w = ''pm''"
  then obtain sp w t' where x: "t = sp @ w @ t'" "list_all is_space sp" "toLowerCase w = ''pm''"
    by blast
  have "dropWhile is_space t = w @ t'" unfolding x(1)
    by (rule dropWhile_spaces_word[OF x(2)]) (simp add: x(3))
  moreover have "liti ''pm'' (w @ t') = Some t'"
    unfolding liti_lower lower_am_pm using x(3) by blast
  ultimately show "liti ''pm'' (dropWhile is_space t) \<noteq> None" by simp
qed

lemma not_am_and_pm:
  "\<not> (liti ''am'' r \<noteq> None \<and> liti ''pm'' r \<noteq> None)"
proof (cases r)
  case Nil
  then show ?thesis by simp
next
  case (Cons c cs)
  have l: "lower_char CHR ''a'' = CHR ''a''" "lower_char CHR ''p'' = CHR ''p''" by code_simp+
  show ?thesis
  proof (cases "lower_char c = CHR ''a''")
    case True
    then have "liti ''pm'' r = None" using Cons l by simp
    then show ?thesis by simp
  next
    case False
    then have "liti ''am'' r = None" using Cons l by auto
    then show ?thesis by simp
  qed
qed

lemma tail_reading_iff:
  "tail_reading t ap \<longleftrightarrow>
   (if liti ''am'' (dropWhile is_space t) \<noteq> None then Some ''am''
    else if liti ''pm'' (dropWhile is_space t) \<noteq> None then Some ''pm'' else None) = ap"
proof (cases ap)
  case None
  have e: "(\<exists>sp w t'. t = sp @ w @ t' \<and> list_all is_space sp \<and>
                 (toLowerCase w = ''am'' \<or> toLowerCase w = ''pm'')) \<longleftrightarrow>
        (liti ''am'' (dropWhile is_space t) \<noteq> None \<or> liti ''pm'' (dropWhile is_space t) \<noteq> None)"
    unfolding tail_am tail_pm by blast
  show ?thesis
    unfolding None tail_reading_def option.case e by auto
next
  case (Some w0)
  show ?thesis
  proof (cases "w0 = ''am''")
    case True
    have "tail_reading t (Some ''am'') \<longleftrightarrow> liti ''am'' (dropWhile is_space t) \<noteq> None"
      unfolding tail_reading_def option.case tail_am by simp
    then show ?thesis unfolding Some True by auto
  next
    case False
    show ?thesis
    proof (cases "w0 = ''pm''")
      case True
      have "tail_reading t (Some ''pm'') \<longleftrightarrow> liti ''pm'' (dropWhile is_space t) \<noteq> None"
        unfolding tail_reading_def option.case tail_pm by simp
      then show ?thesis
        using not_am_and_pm[of "dropWhile is_space t"] unfolding Some True by auto
    next
      case f2: False
      with False show ?thesis
        unfolding tail_reading_def Some by auto
    qed
  qed
qed


lemma takeWhile_full: "length (takeWhile P xs) = length xs \<Longrightarrow> takeWhile P xs = xs"
proof -
  assume l: "length (takeWhile P xs) = length xs"
  have "length (takeWhile P xs) + length (dropWhile P xs) = length xs"
    using takeWhile_dropWhile_id[of P xs] by (metis length_append)
  with l have "dropWhile P xs = []" by simp
  then show ?thesis using takeWhile_dropWhile_id[of P xs] by simp
qed

lemma two_digits_prefix:
  assumes "r = x @ b'" "two_digits x"
  shows "take 2 r = x" "takeWhile is_digit (take 2 r) = x" "drop 2 r = b'"
proof -
  from assms(2) have l: "length x = 2" and d: "list_all is_digit x" by (simp_all add: two_digits_def)
  show t: "take 2 r = x" using assms(1) l by simp
  show "takeWhile is_digit (take 2 r) = x" unfolding t using d by (simp add: list_all_iff)
  show "drop 2 r = b'" using assms(1) l by simp
qed

lemma two_digits_iff:
  "length (takeWhile is_digit (take 2 r)) = 2 \<longleftrightarrow> (\<exists>x b'. r = x @ b' \<and> two_digits x)"
proof
  assume l: "length (takeWhile is_digit (take 2 r)) = 2"
  have "length (takeWhile is_digit (take 2 r)) \<le> length (take 2 r)" by (rule length_takeWhile_le)
  with l have l2: "length (take 2 r) = 2" by simp
  with l have "takeWhile is_digit (take 2 r) = take 2 r" by (intro takeWhile_full) simp
  then have "list_all is_digit (take 2 r)" by (simp add: list_all_iff takeWhile_eq_all_conv)
  with l2 have "r = take 2 r @ drop 2 r \<and> two_digits (take 2 r)" by (simp add: two_digits_def)
  then show "\<exists>x b'. r = x @ b' \<and> two_digits x" by blast
next
  assume "\<exists>x b'. r = x @ b' \<and> two_digits x"
  then obtain x b' where x: "r = x @ b'" "two_digits x" by blast
  from two_digits_prefix(2)[OF x] x(2) show "length (takeWhile is_digit (take 2 r)) = 2"
    by (simp add: two_digits_def)
qed

lemma after_hour_iff:
  "after_hour b mins ap \<longleftrightarrow>
     (case b of
        [] \<Rightarrow> None
      | c # r \<Rightarrow>
          if c = CHR '':'' \<and> length (takeWhile is_digit (take 2 r)) = 2
          then Some (take 2 r) else None) = mins \<and>
     tail_reading (case mins of None \<Rightarrow> b | Some x \<Rightarrow> drop 3 b) ap"
proof (cases "\<exists>x b'. b = CHR '':'' # x @ b' \<and> two_digits x")
  case True
  then obtain x0 b0 where x0: "b = CHR '':'' # x0 @ b0" "two_digits x0" by blast
  have r: "x0 @ b0 = x0 @ b0" by simp
  note p = two_digits_prefix[OF r x0(2)]
  have l: "length (takeWhile is_digit (take 2 (x0 @ b0))) = 2"
    using two_digits_iff[of "x0 @ b0"] x0(2) by blast
  have code: "(case b of
        [] \<Rightarrow> None
      | c # r \<Rightarrow>
          if c = CHR '':'' \<and> length (takeWhile is_digit (take 2 r)) = 2
          then Some (take 2 r) else None) = Some x0"
    unfolding x0(1) using l p(1) by simp
  have d3: "drop 3 b = b0" using x0 by (simp add: two_digits_def)
  show ?thesis
  proof (cases mins)
    case None
    with True show ?thesis unfolding after_hour_def code by simp
  next
    case (Some x)
    have "(two_digits x \<and> (\<exists>b'. b = CHR '':'' # x @ b' \<and> tail_reading b' ap)) \<longleftrightarrow>
          (x = x0 \<and> tail_reading b0 ap)"
    proof
      assume "two_digits x \<and> (\<exists>b'. b = CHR '':'' # x @ b' \<and> tail_reading b' ap)"
      then obtain b' where b': "two_digits x" "b = CHR '':'' # x @ b'" "tail_reading b' ap"
        by blast
      from b'(2) x0(1) have "x @ b' = x0 @ b0" by simp
      moreover have "length x = length x0" using b'(1) x0(2) by (simp add: two_digits_def)
      ultimately have "x = x0" "b' = b0" by simp_all
      with b'(3) show "x = x0 \<and> tail_reading b0 ap" by simp
    next
      assume "x = x0 \<and> tail_reading b0 ap"
      with x0 show "two_digits x \<and> (\<exists>b'. b = CHR '':'' # x @ b' \<and> tail_reading b' ap)"
        by blast
    qed
    then show ?thesis unfolding after_hour_def code Some option.case d3 by auto
  qed
next
  case False
  have code: "(case b of
        [] \<Rightarrow> None
      | c # r \<Rightarrow>
          if c = CHR '':'' \<and> length (takeWhile is_digit (take 2 r)) = 2
          then Some (take 2 r) else None) = None"
  proof (cases b)
    case Nil
    then show ?thesis by simp
  next
    case (Cons c r)
    have "\<not> (c = CHR '':'' \<and> length (takeWhile is_digit (take 2 r)) = 2)"
    proof
      assume a: "c = CHR '':'' \<and> length (takeWhile is_digit (take 2 r)) = 2"
      then obtain x b' where "r = x @ b'" "two_digits x" unfolding two_digits_iff by blast
      with a Cons have "b = CHR '':'' # x @ b' \<and> two_digits x" by simp
      with False show False by blast
    qed
    with Cons show ?thesis by simp
  qed
  show ?thesis
  proof (cases mins)
    case None
    with False show ?thesis unfolding after_hour_def code by simp
  next
    case (Some x)
    have "\<not> (two_digits x \<and> (\<exists>b'. b = CHR '':'' # x @ b' \<and> tail_reading b' ap))"
      using False by blast
    then show ?thesis unfolding after_hour_def code Some option.case by simp
  qed
qed

lemma hour_digits_iff:
  "(takeWhile is_digit (take 2 z) = hs \<and> hs \<noteq> [] \<and> drop (length hs) z = b) \<longleftrightarrow>
   (z = hs @ b \<and> hs \<noteq> [] \<and> list_all is_digit hs \<and> length hs \<le> 2 \<and>
    \<not> (length hs < 2 \<and> b \<noteq> [] \<and> is_digit (hd b)))"
proof
  assume a: "takeWhile is_digit (take 2 z) = hs \<and> hs \<noteq> [] \<and> drop (length hs) z = b"
  define dw where "dw = dropWhile is_digit (take 2 z)"
  have t: "take 2 z = hs @ dw" using a takeWhile_dropWhile_id[of is_digit "take 2 z"]
    by (simp add: dw_def)
  have "z = take 2 z @ drop 2 z" by simp
  then have z: "z = hs @ dw @ drop 2 z" unfolding t by simp
  then have "drop (length hs) z = dw @ drop 2 z" by (metis append_eq_conv_conj)
  with a have b: "b = dw @ drop 2 z" by simp
  have al: "list_all is_digit hs" using a by (auto simp add: list_all_iff dest: set_takeWhileD)
  have "length (hs @ dw) \<le> 2" unfolding t[symmetric] by simp
  then have le: "length hs \<le> 2" by simp
  have mx: "\<not> (length hs < 2 \<and> b \<noteq> [] \<and> is_digit (hd b))"
  proof
    assume c: "length hs < 2 \<and> b \<noteq> [] \<and> is_digit (hd b)"
    show False
    proof (cases "dw = []")
      case True
      with t c have "length (take 2 z) < 2" by simp
      then have "length z < 2" by simp
      then have "drop 2 z = []" by simp
      with True b c show False by simp
    next
      case False
      then have "\<not> is_digit (hd dw)" unfolding dw_def by (rule hd_dropWhile)
      moreover have "hd b = hd dw" using False b by simp
      ultimately show False using c by simp
    qed
  qed
  from z b a al le mx show "z = hs @ b \<and> hs \<noteq> [] \<and> list_all is_digit hs \<and> length hs \<le> 2 \<and>
    \<not> (length hs < 2 \<and> b \<noteq> [] \<and> is_digit (hd b))" by simp
next
  assume a: "z = hs @ b \<and> hs \<noteq> [] \<and> list_all is_digit hs \<and> length hs \<le> 2 \<and>
    \<not> (length hs < 2 \<and> b \<noteq> [] \<and> is_digit (hd b))"
  then have d: "drop (length hs) z = b" by simp
  have "takeWhile is_digit (take 2 z) = hs"
  proof (cases "length hs = 2")
    case True
    then have t: "take 2 z = hs" using a by simp
    have "takeWhile is_digit hs = hs" using a by (simp add: list_all_iff)
    then show ?thesis unfolding t .
  next
    case False
    have "length hs \<noteq> 0" "length hs \<le> 2" using a by simp_all
    with False have "length hs = Suc 0" by arith
    then obtain dg where hs: "hs = [dg]" by (cases hs) auto
    with a have dg: "is_digit dg" by simp
    show ?thesis
    proof (cases b)
      case Nil
      with a hs have "z = [dg]" by simp
      then show ?thesis using dg hs by simp
    next
      case (Cons c b')
      with a hs have "\<not> is_digit c" by simp
      moreover have "z = dg # c # b'" using a hs Cons by simp
      ultimately show ?thesis using dg hs by simp
    qed
  qed
  with a d show "takeWhile is_digit (take 2 z) = hs \<and> hs \<noteq> [] \<and> drop (length hs) z = b"
    by simp
qed

lemma re_time_at:
  "re_time p z = Some (hs, mins, ap) \<longleftrightarrow>
   (\<exists>b. z = hs @ b \<and> hs \<noteq> [] \<and> list_all is_digit hs \<and> length hs \<le> 2 \<and>
        \<not> (length hs < 2 \<and> b \<noteq> [] \<and> is_digit (hd b)) \<and> after_hour b mins ap)"
proof -
  have code: "re_time p z = Some (hs, mins, ap) \<longleftrightarrow>
      (takeWhile is_digit (take 2 z) = hs \<and> hs \<noteq> [] \<and>
       drop (length hs) z = drop (length hs) z) \<and>
      after_hour (drop (length hs) z) mins ap"
    unfolding after_hour_iff tail_reading_iff
    by (auto simp add: re_time_def Let_def)
  show ?thesis
  proof
    assume "re_time p z = Some (hs, mins, ap)"
    then have 1: "takeWhile is_digit (take 2 z) = hs \<and> hs \<noteq> [] \<and>
       drop (length hs) z = drop (length hs) z"
      and 2: "after_hour (drop (length hs) z) mins ap"
      unfolding code by simp_all
    from 1 have "z = hs @ drop (length hs) z \<and> hs \<noteq> [] \<and> list_all is_digit hs \<and>
        length hs \<le> 2 \<and>
        \<not> (length hs < 2 \<and> drop (length hs) z \<noteq> [] \<and> is_digit (hd (drop (length hs) z)))"
      unfolding hour_digits_iff .
    with 2 show "\<exists>b. z = hs @ b \<and> hs \<noteq> [] \<and> list_all is_digit hs \<and> length hs \<le> 2 \<and>
        \<not> (length hs < 2 \<and> b \<noteq> [] \<and> is_digit (hd b)) \<and> after_hour b mins ap"
      by blast
  next
    assume "\<exists>b. z = hs @ b \<and> hs \<noteq> [] \<and> list_all is_digit hs \<and> length hs \<le> 2 \<and>
        \<not> (length hs < 2 \<and> b \<noteq> [] \<and> is_digit (hd b)) \<and> after_hour b mins ap"
    then obtain b where b: "z = hs @ b \<and> hs \<noteq> [] \<and> list_all is_digit hs \<and> length hs \<le> 2 \<and>
        \<not> (length hs < 2 \<and> b \<noteq> [] \<and> is_digit (hd b))" and ah: "after_hour b mins ap"
      by blast
    from b have "takeWhile is_digit (take 2 z) = hs \<and> hs \<noteq> [] \<and> drop (length hs) z = b"
      unfolding hour_digits_iff[symmetric] .
    with ah show "re_time p z = Some (hs, mins, ap)" unfolding code by simp
  qed
qed

lemma re_time_None_at: "re_time p z = None \<longleftrightarrow> (z = [] \<or> \<not> is_digit (hd z))"
proof (cases z)
  case Nil
  then show ?thesis by (simp add: re_time_def)
next
  case (Cons c cs)
  then show ?thesis by (cases cs) (simp_all add: re_time_def Let_def)
qed

lemma matches_re_time: "matches re_time s = Some (hs, mins, ap) \<longleftrightarrow> time_reading s hs mins ap"
proof
  assume "matches re_time s = Some (hs, mins, ap)"
  then have "search re_time None s = Some (hs, mins, ap)" by (simp add: matches_def)
  from search_leftmost[OF this] obtain a z where all: "s = a @ z \<and>
    re_time (if a = [] then None else Some (last a)) z = Some (hs, mins, ap) \<and>
    (\<forall>a' z'. s = a' @ z' \<and> length a' < length a \<longrightarrow>
        re_time (if a' = [] then None else Some (last a')) z' = None)"
    by (elim exE)
  have nd: "list_all (\<lambda>c. \<not> is_digit c) a"
  proof -
    have "\<not> is_digit c" if "c \<in> set a" for c
    proof -
      from that obtain a1 a2 where sp: "a = a1 @ c # a2" by (meson split_list)
      then have "s = a1 @ (c # a2 @ z) \<and> length a1 < length a" using all by simp
      with all have "re_time (if a1 = [] then None else Some (last a1)) (c # a2 @ z) = None"
        by blast
      then show ?thesis unfolding re_time_None_at by simp
    qed
    then show ?thesis by (simp add: list_all_iff)
  qed
  from all obtain b where "z = hs @ b \<and> hs \<noteq> [] \<and> list_all is_digit hs \<and> length hs \<le> 2 \<and>
        \<not> (length hs < 2 \<and> b \<noteq> [] \<and> is_digit (hd b)) \<and> after_hour b mins ap"
    unfolding re_time_at by blast
  with all nd have "s = a @ hs @ b \<and> list_all (\<lambda>c. \<not> is_digit c) a \<and>
            hs \<noteq> [] \<and> list_all is_digit hs \<and> length hs \<le> 2 \<and>
            \<not> (length hs < 2 \<and> b \<noteq> [] \<and> is_digit (hd b)) \<and>
            after_hour b mins ap" by simp
  then show "time_reading s hs mins ap" unfolding time_reading_def by blast
next
  assume "time_reading s hs mins ap"
  then obtain a b where x: "s = a @ hs @ b" "list_all (\<lambda>c. \<not> is_digit c) a"
    and y: "hs @ b = hs @ b \<and> hs \<noteq> [] \<and> list_all is_digit hs \<and> length hs \<le> 2 \<and>
            \<not> (length hs < 2 \<and> b \<noteq> [] \<and> is_digit (hd b)) \<and> after_hour b mins ap"
    unfolding time_reading_def by blast
  have m: "re_time p (hs @ b) = Some (hs, mins, ap)" for p
    unfolding re_time_at using y by blast
  have "search re_time None (a @ hs @ b) =
      search re_time (if a = [] then None else Some (last a)) (hs @ b)"
  proof (rule search_skip)
    fix a' z' assume "a = a' @ z'" "z' \<noteq> []"
    then have "\<not> is_digit (hd z')" using x(2) by (cases z') (simp_all add: list_all_iff)
    then show "re_time (if a' = [] then None else Some (last a')) (z' @ hs @ b) = None"
      unfolding re_time_None_at using \<open>z' \<noteq> []\<close> by simp
  qed
  also have "\<dots> = Some (hs, mins, ap)" by (rule search_here) (rule m)
  finally show "matches re_time s = Some (hs, mins, ap)" by (simp add: matches_def x(1))
qed

lemma matches_re_time_None: "matches re_time s = None \<longleftrightarrow> list_all (\<lambda>c. \<not> is_digit c) s"
proof
  assume n: "matches re_time s = None"
  show "list_all (\<lambda>c. \<not> is_digit c) s"
  proof (rule ccontr)
    assume "\<not> list_all (\<lambda>c. \<not> is_digit c) s"
    then obtain c where "c \<in> set s" "is_digit c" by (auto simp add: list_all_iff)
    then obtain a r where s: "s = a @ c # r" by (meson split_list)
    have "re_time (if a = [] then None else Some (last a)) (c # r) \<noteq> None"
      unfolding re_time_None_at using \<open>is_digit c\<close> by simp
    then have "search re_time None (a @ c # r) \<noteq> None" by (rule search_finds_at)
    with n s show False by (simp add: matches_def)
  qed
next
  assume nd: "list_all (\<lambda>c. \<not> is_digit c) s"
  have "search re_time None (s @ []) = search re_time (if s = [] then None else Some (last s)) []"
  proof (rule search_skip)
    fix a' z' assume "s = a' @ z'" "z' \<noteq> []"
    then have "\<not> is_digit (hd z')" using nd by (cases z') (simp_all add: list_all_iff)
    then show "re_time (if a' = [] then None else Some (last a')) (z' @ []) = None"
      unfolding re_time_None_at using \<open>z' \<noteq> []\<close> by simp
  qed
  also have "\<dots> = None" by (simp add: re_time_def)
  finally show "matches re_time s = None" by (simp add: matches_def)
qed


lemma extractPickupTime_reading:
  assumes "matches re_time s = Some (hs, mins, ap)"
  shows "extractPickupTime tz t_new t_now s =
     Some (if setHours tz t_new (hour24 (parseInt hs) ap) (minutes_of mins) < t_now
           then nextDate (setHours tz t_new (hour24 (parseInt hs) ap) (minutes_of mins))
           else setHours tz t_new (hour24 (parseInt hs) ap) (minutes_of mins))"
proof -
  have h: "(if ap = Some ''am'' \<and>
               (if ap = Some ''pm'' \<and> parseInt hs < 12 then parseInt hs + 12 else parseInt hs) = 12
            then 0
            else (if ap = Some ''pm'' \<and> parseInt hs < 12 then parseInt hs + 12 else parseInt hs)) =
           hour24 (parseInt hs) ap"
    by (auto simp add: hour24_def)
  have m: "(case mins of Some x \<Rightarrow> parseInt x | None \<Rightarrow> 0) = minutes_of mins"
    by (simp add: minutes_of_def split: option.splits)
  show ?thesis
    unfolding extractPickupTime_def assms
    by (simp only: option.case prod.case Let_def setHours_setSeconds00 h m)
qed

lemma clock_small:
  assumes "h < 24" "mi < 60"
  shows "int h * msPerHour + int mi * msPerMinute < msPerDay"
proof -
  have "int h \<le> 23" "int mi \<le> 59" using assms by simp_all
  then have "int h * 3600000 \<le> 23 * 3600000" "int mi * 60000 \<le> 59 * 60000" by simp_all
  then show ?thesis by (simp add: msPerHour_def msPerMinute_def msPerDay_def)
qed

lemma placed_today_or_tomorrow:
  assumes "local_day tz t_now = local_day tz t_new" "h < 24" "mi < 60"
  shows "time_of_day tz (if setHours tz t_new h mi < t_now then nextDate (setHours tz t_new h mi)
                          else setHours tz t_new h mi) =
           int h * msPerHour + int mi * msPerMinute"
    and "local_day tz (if setHours tz t_new h mi < t_now then nextDate (setHours tz t_new h mi)
                        else setHours tz t_new h mi) =
           (if int h * msPerHour + int mi * msPerMinute < time_of_day tz t_now
            then local_day tz t_new + 1 else local_day tz t_new)"
proof -
  define d where "d = setHours tz t_new h mi"
  define x where "x = int h * msPerHour + int mi * msPerMinute"
  have small: "int h * msPerHour + int mi * msPerMinute < msPerDay"
    by (rule clock_small[OF assms(2) assms(3)])
  have dd: "local_day tz d = local_day tz t_new" "time_of_day tz d = x"
    "local_day tz (nextDate d) = local_day tz t_new + 1"
    "time_of_day tz (nextDate d) = x"
    using day_time_setHours[OF small, of tz t_new] by (simp_all add: d_def x_def)
  have "d + tz = local_day tz t_new * msPerDay + x"
    by (simp add: d_def x_def setHours_def local_day_def)
  moreover have "t_now + tz = local_day tz t_now * msPerDay + time_of_day tz t_now"
    by (simp add: local_day_def time_of_day_def)
  then have "t_now + tz = local_day tz t_new * msPerDay + time_of_day tz t_now"
    using assms(1) by simp
  ultimately have cmp: "d < t_now \<longleftrightarrow> x < time_of_day tz t_now"
    by linarith
  show "time_of_day tz (if setHours tz t_new h mi < t_now then nextDate (setHours tz t_new h mi)
                          else setHours tz t_new h mi) =
           int h * msPerHour + int mi * msPerMinute"
    unfolding d_def[symmetric] x_def[symmetric] using dd by simp
  show "local_day tz (if setHours tz t_new h mi < t_now then nextDate (setHours tz t_new h mi)
                        else setHours tz t_new h mi) =
           (if int h * msPerHour + int mi * msPerMinute < time_of_day tz t_now
            then local_day tz t_new + 1 else local_day tz t_new)"
    unfolding d_def[symmetric] x_def[symmetric] using dd cmp by simp
qed

lemma digit_is_read:
  assumes "\<not> list_all (\<lambda>c. \<not> is_digit c) s"
  shows "\<exists>hs mins ap. time_reading s hs mins ap"
proof -
  from assms have "matches re_time s \<noteq> None" unfolding matches_re_time_None .
  then obtain m where "matches re_time s = Some m" by blast
  moreover obtain hs mins ap where "m = (hs, mins, ap)" by (cases m) auto
  ultimately have "time_reading s hs mins ap" unfolding matches_re_time[symmetric] by simp
  then show ?thesis by blast
qed

lemma reading_1145: "time_reading ''pickup at 11:45 am'' ''11'' (Some ''45'') (Some ''am'')"
  unfolding matches_re_time[symmetric] by code_simp

lemma reading_12am: "time_reading ''12 AM'' ''12'' None (Some ''am'')"
  unfolding matches_re_time[symmetric] by code_simp

lemma clock_1145:
  "hour24 (parseInt ''11'') (Some ''am'') = 11" "minutes_of (Some ''45'') = 45"
  "hour24 (parseInt ''12'') (Some ''am'') = 0" "minutes_of None = 0"
  by code_simp+


section \<open>Tracking-id extraction\<close>

text \<open>
  Claim C9. Tracking-id extraction normalises the case and is idempotent: on
  \<open>"ship ord-abc123 now"\<close> it returns \<open>"ORD-ABC123"\<close>, and whenever it succeeds on a text,
  applying it to its own result returns that result unchanged. The case is normalised on
  every text: a result has the shape \<open>ORD-[A-Z0-9]+\<close> and is the upper-cased first token
  \<open>ORD-[alnum]+\<close> (in any case, as a whole word) of the text, and extraction succeeds on
  every text that holds such a token.
\<close>

theorem extractTrackingIdFrom_idempotent:
  "extractTrackingIdFrom ''ship ord-abc123 now'' = Some ''ORD-ABC123'' \<and>
   (\<forall>t r. extractTrackingIdFrom t = Some r \<longrightarrow>
      upper_id r \<and>
      (\<exists>a tok b. t = a @ tok @ b \<and> ord_token a tok b \<and> r = toUpperCase tok \<and>
         (\<forall>a' tok' b'. t = a' @ tok' @ b' \<and> ord_token a' tok' b' \<longrightarrow>
            length a \<le> length a')) \<and>
      extractTrackingIdFrom r = Some r) \<and>
   (\<forall>a tok b. ord_token a tok b \<longrightarrow> extractTrackingIdFrom (a @ tok @ b) \<noteq> None)"
proof (intro conjI allI impI)
  show "extractTrackingIdFrom ''ship ord-abc123 now'' = Some ''ORD-ABC123''" by code_simp
next
  fix t r assume e: "extractTrackingIdFrom t = Some r"
  from extract_first_token[OF e] obtain a tok b where
    x: "t = a @ tok @ b" "ord_token a tok b" "r = toUpperCase tok" by blast
  from x(2) have "toUpperCase (take 4 tok) = ''ORD-''" "drop 4 tok \<noteq> []"
    "list_all is_alnum (drop 4 tok)" by (simp_all add: ord_token_def)
  then show "upper_id r" unfolding x(3) by (rule upper_id_toUpperCase)
next
  fix t r assume e: "extractTrackingIdFrom t = Some r"
  then show "\<exists>a tok b. t = a @ tok @ b \<and> ord_token a tok b \<and> r = toUpperCase tok \<and>
         (\<forall>a' tok' b'. t = a' @ tok' @ b' \<and> ord_token a' tok' b' \<longrightarrow>
            length a \<le> length a')"
    by (rule extract_first_token)
next
  fix t r assume e: "extractTrackingIdFrom t = Some r"
  then show "extractTrackingIdFrom r = Some r" by (rule extract_idempotent)
next
  fix a tok b assume "ord_token a tok b"
  then show "extractTrackingIdFrom (a @ tok @ b) \<noteq> None" by (rule extract_token_found)
qed

theorem extractTrackingIdFrom_idempotent_witness:
  "extractTrackingIdFrom ''ship ord-abc123 now'' = Some ''ORD-ABC123'' \<and>
   upper_id ''ORD-ABC123'' \<and>
   extractTrackingIdFrom ''ORD-ABC123'' = Some ''ORD-ABC123'' \<and>
   ord_token ''see '' ''Ord-7x'' '', please'' \<and>
   extractTrackingIdFrom (''see '' @ ''Ord-7x'' @ '', please'') \<noteq> None"
proof -
  have k: "ord_token ''see '' ''Ord-7x'' '', please''" by code_simp
  from extractTrackingIdFrom_idempotent k show ?thesis by blast
qed

section \<open>Intent classification\<close>

text \<open>
  Claim C3. The classifier agrees with the ordered rule table: it tests the eight rules in
  the order create_order, track_order, next_pickup, list_orders, cancel_order, delete_order,
  update_address, update_order on the lower-cased input and returns the first that matches,
  and \<open>general\<close> when none does. The input \<open>"update address of ORD-1"\<close> matches both the
  update_address rule and the update_order rule and is classified as update_address.
\<close>

theorem parseIntent_first_match:
  "intent (parseIntent txt) = first_match intent_rules (toLowerCase txt) \<and>
   map fst intent_rules =
     [''create_order'', ''track_order'', ''next_pickup'', ''list_orders'', ''cancel_order'',
      ''delete_order'', ''update_address'', ''update_order''] \<and>
   intent (parseIntent ''update address of ORD-1'') = ''update_address'' \<and>
   test re_address (toLowerCase ''update address of ORD-1'') \<and>
   test re_update (toLowerCase ''update address of ORD-1'')"
proof (intro conjI)
  show "intent (parseIntent txt) = first_match intent_rules (toLowerCase txt)"
    by (simp add: parseIntent_def Let_def intent_rules_def split: option.splits)
  show "map fst intent_rules =
     [''create_order'', ''track_order'', ''next_pickup'', ''list_orders'', ''cancel_order'',
      ''delete_order'', ''update_address'', ''update_order'']"
    by (simp add: intent_rules_def)
  show "intent (parseIntent ''update address of ORD-1'') = ''update_address''"
    by code_simp
  show "test re_address (toLowerCase ''update address of ORD-1'')"
    by code_simp
  show "test re_update (toLowerCase ''update address of ORD-1'')"
    by code_simp
qed

section \<open>Pickup times\<close>

text \<open>
  Claim C7, as amended. With both clock readings on the same local day,
  \<open>extractPickupTime("5 pm")\<close> returns 17:00 of today when the current time of day is at or
  before 17:00:00.000, and 17:00 of tomorrow when it is after. In general, when a text reads
  as the hour \<open>hs\<close>, the minutes \<open>mins\<close> and \<open>am\<close> or \<open>pm\<close>, and these denote an hour below 24
  and a minute below 60, the result is that time of day on today's date unless it lies
  before the current instant, and on tomorrow's date when it does. A text without a digit
  gives no time, and every text with a digit has a reading.
\<close>

theorem extractPickupTime_5pm:
  assumes "local_day tz t_now = local_day tz t_new"
  shows "(\<exists>r. extractPickupTime tz t_new t_now ''5 pm'' = Some r \<and>
            time_of_day tz r = 17 * msPerHour \<and>
            local_day tz r =
              (if 17 * msPerHour < time_of_day tz t_now then local_day tz t_new + 1
               else local_day tz t_new)) \<and>
         (\<forall>s hs mins ap.
            time_reading s hs mins ap \<and> hour24 (parseInt hs) ap < 24 \<and> minutes_of mins < 60 \<longrightarrow>
            (\<exists>r. extractPickupTime tz t_new t_now s = Some r \<and>
                 time_of_day tz r = clock_ms hs mins ap \<and>
                 local_day tz r =
                   (if clock_ms hs mins ap < time_of_day tz t_now then local_day tz t_new + 1
                    else local_day tz t_new))) \<and>
         (\<forall>s. list_all (\<lambda>c. \<not> is_digit c) s \<longrightarrow> extractPickupTime tz t_new t_now s = None) \<and>
         (\<forall>s. \<not> list_all (\<lambda>c. \<not> is_digit c) s \<longrightarrow> (\<exists>hs mins ap. time_reading s hs mins ap))"
proof (intro conjI allI impI)
  have p: "17 < (24 :: nat)" "0 < (60 :: nat)" by simp_all
  note pl = placed_today_or_tomorrow[OF assms p]
  have "extractPickupTime tz t_new t_now ''5 pm'' =
      Some (if setHours tz t_new 17 0 < t_now then nextDate (setHours tz t_new 17 0)
            else setHours tz t_new 17 0)"
    by (rule extractPickupTime_5pm_value)
  then show "\<exists>r. extractPickupTime tz t_new t_now ''5 pm'' = Some r \<and>
            time_of_day tz r = 17 * msPerHour \<and>
            local_day tz r =
              (if 17 * msPerHour < time_of_day tz t_now then local_day tz t_new + 1
               else local_day tz t_new)"
    using pl by simp
next
  fix s hs mins ap
  assume a: "time_reading s hs mins ap \<and> hour24 (parseInt hs) ap < 24 \<and> minutes_of mins < 60"
  then have m: "matches re_time s = Some (hs, mins, ap)" unfolding matches_re_time by simp
  from a have b: "hour24 (parseInt hs) ap < 24" "minutes_of mins < 60" by simp_all
  note pl = placed_today_or_tomorrow[OF assms b]
  show "\<exists>r. extractPickupTime tz t_new t_now s = Some r \<and>
                 time_of_day tz r = clock_ms hs mins ap \<and>
                 local_day tz r =
                   (if clock_ms hs mins ap < time_of_day tz t_now then local_day tz t_new + 1
                    else local_day tz t_new)"
    unfolding extractPickupTime_reading[OF m] clock_ms_def using pl by simp
next
  fix s assume "list_all (\<lambda>c. \<not> is_digit c) s"
  then have "matches re_time s = None" unfolding matches_re_time_None .
  then show "extractPickupTime tz t_new t_now s = None" by (simp add: extractPickupTime_def)
next
  fix s assume "\<not> list_all (\<lambda>c. \<not> is_digit c) s"
  then show "\<exists>hs mins ap. time_reading s hs mins ap" by (rule digit_is_read)
qed

text \<open>
  The theorem at the instant 1700000000000 (22:13:20 UTC): \<open>5 pm\<close>, \<open>11:45 am\<close> and
  \<open>12 AM\<close> have passed and are placed on the next day, at 17:00, 11:45 and 0:00.
\<close>

theorem extractPickupTime_5pm_witness:
  "local_day 0 1700000000000 = local_day 0 1700000000000 \<and>
   (\<exists>r. extractPickupTime 0 1700000000000 1700000000000 ''5 pm'' = Some r \<and>
        time_of_day 0 r = 17 * msPerHour \<and>
        local_day 0 r = local_day 0 1700000000000 + 1) \<and>
   time_reading ''pickup at 11:45 am'' ''11'' (Some ''45'') (Some ''am'') \<and>
   (\<exists>r. extractPickupTime 0 1700000000000 1700000000000 ''pickup at 11:45 am'' = Some r \<and>
        time_of_day 0 r = 11 * msPerHour + 45 * msPerMinute \<and>
        local_day 0 r = local_day 0 1700000000000 + 1) \<and>
   extractPickupTime 0 1700000000000 1700000000000 ''pickup at 11:45 am'' = Some 1700048700000 \<and>
   time_reading ''12 AM'' ''12'' None (Some ''am'') \<and>
   (\<exists>r. extractPickupTime 0 1700000000000 1700000000000 ''12 AM'' = Some r \<and>
        time_of_day 0 r = 0 \<and>
        local_day 0 r = local_day 0 1700000000000 + 1) \<and>
   list_all (\<lambda>c. \<not> is_digit c) ''soon'' \<and>
   extractPickupTime 0 1700000000000 1700000000000 ''soon'' = None"
proof -
  have a: "local_day 0 1700000000000 = local_day 0 1700000000000" by simp
  have tod: "time_of_day 0 1700000000000 = 80000000"
    by (simp add: time_of_day_def msPerDay_def)
  have c: "17 * msPerHour < time_of_day 0 1700000000000"
    by (simp add: msPerHour_def tod)
  have e: "extractPickupTime 0 1700000000000 1700000000000 ''pickup at 11:45 am'' =
      Some 1700048700000"
    by code_simp
  have n: "list_all (\<lambda>c. \<not> is_digit c) ''soon''" by code_simp
  note th = extractPickupTime_5pm[OF a]
  from th c have p1: "\<exists>r. extractPickupTime 0 1700000000000 1700000000000 ''5 pm'' = Some r \<and>
        time_of_day 0 r = 17 * msPerHour \<and>
        local_day 0 r = local_day 0 1700000000000 + 1"
    by simp
  have k1: "clock_ms ''11'' (Some ''45'') (Some ''am'') = 11 * msPerHour + 45 * msPerMinute"
    by (simp add: clock_ms_def clock_1145)
  have k2: "clock_ms ''12'' None (Some ''am'') = 0"
    by (simp add: clock_ms_def clock_1145)
  have "time_reading ''pickup at 11:45 am'' ''11'' (Some ''45'') (Some ''am'') \<and>
      hour24 (parseInt ''11'') (Some ''am'') < 24 \<and> minutes_of (Some ''45'') < 60"
    using reading_1145 by (simp add: clock_1145)
  with th have "\<exists>r. extractPickupTime 0 1700000000000 1700000000000 ''pickup at 11:45 am'' = Some r \<and>
        time_of_day 0 r = clock_ms ''11'' (Some ''45'') (Some ''am'') \<and>
        local_day 0 r =
          (if clock_ms ''11'' (Some ''45'') (Some ''am'') < time_of_day 0 1700000000000
           then local_day 0 1700000000000 + 1 else local_day 0 1700000000000)"
    by blast
  then have p2: "\<exists>r. extractPickupTime 0 1700000000000 1700000000000 ''pickup at 11:45 am'' = Some r \<and>
        time_of_day 0 r = 11 * msPerHour + 45 * msPerMinute \<and>
        local_day 0 r = local_day 0 1700000000000 + 1"
    unfolding k1 tod by (simp add: msPerHour_def msPerMinute_def)
  have "time_reading ''12 AM'' ''12'' None (Some ''am'') \<and>
      hour24 (parseInt ''12'') (Some ''am'') < 24 \<and> minutes_of None < 60"
    using reading_12am by (simp add: clock_1145)
  with th have "\<exists>r. extractPickupTime 0 1700000000000 1700000000000 ''12 AM'' = Some r \<and>
        time_of_day 0 r = clock_ms ''12'' None (Some ''am'') \<and>
        local_day 0 r =
          (if clock_ms ''12'' None (Some ''am'') < time_of_day 0 1700000000000
           then local_day 0 1700000000000 + 1 else local_day 0 1700000000000)"
    by blast
  then have p3: "\<exists>r. extractPickupTime 0 1700000000000 1700000000000 ''12 AM'' = Some r \<and>
        time_of_day 0 r = 0 \<and>
        local_day 0 r = local_day 0 1700000000000 + 1"
    unfolding k2 tod by simp
  from th n have p4: "extractPickupTime 0 1700000000000 1700000000000 ''soon'' = None"
    by blast
  from a p1 reading_1145 p2 e reading_12am p3 n p4 show ?thesis by (intro conjI)
qed

text \<open>
  The claim as stated fails at the boundary: at exactly 17:00:00.000 the comparison
  \<open>d.getTime() < Date.now()\<close> is false and today's 17:00 is returned, not tomorrow's.
\<close>

theorem extractPickupTime_5pm_counterexample:
  "\<not> (\<forall>tz t. 17 * msPerHour \<le> time_of_day tz t \<longrightarrow>
        (\<exists>r. extractPickupTime tz t t ''5 pm'' = Some r \<and> local_day tz r = local_day tz t + 1))"
proof
  assume "\<forall>tz t. 17 * msPerHour \<le> time_of_day tz t \<longrightarrow>
        (\<exists>r. extractPickupTime tz t t ''5 pm'' = Some r \<and> local_day tz r = local_day tz t + 1)"
  moreover have "17 * msPerHour \<le> time_of_day 0 61200000"
    by (simp add: msPerHour_def time_of_day_def msPerDay_def)
  ultimately obtain r where r: "extractPickupTime 0 61200000 61200000 ''5 pm'' = Some r"
    "local_day 0 r = local_day 0 61200000 + 1" by blast
  have "extractPickupTime 0 61200000 61200000 ''5 pm'' = Some 61200000" by code_simp
  with r show False by (simp add: local_day_def msPerDay_def)
qed

section \<open>Listing orders\<close>

text \<open>
  Claim C8, as amended. For every state of the store the list_orders intent returns at most
  ten orders, ordered by creation time, newest first, where orders created in the same
  millisecond may follow each other. The orders returned are the ten most recent ones (all
  of them when the store holds at most ten): together with the orders left out they are the
  orders of the store, each as often as the store holds it, and no order left out was
  created after a returned one. The store is left as it is.
\<close>

theorem list_orders_recent:
  assumes "intent (parseIntent txt) = ''list_orders''"
  shows "\<exists>found rest. action (fst (aiReply rt txt uid s)) = Some ''list_orders'' \<and>
           orders_of (fst (aiReply rt txt uid s)) = Some found \<and>
           length found \<le> 10 \<and>
           length found = min 10 (length (orders s)) \<and>
           set found \<subseteq> set (orders s) \<and>
           sorted_wrt (\<lambda>a b. createdAt b \<le> createdAt a) found \<and>
           mset (found @ rest) = mset (orders s) \<and>
           (\<forall>x\<in>set rest. \<forall>y\<in>set found. createdAt x \<le> createdAt y) \<and>
           (length (orders s) \<le> 10 \<longrightarrow> rest = []) \<and>
           orders (snd (aiReply rt txt uid s)) = orders s"
proof -
  from find_recent_rest[of "orders s"] obtain rest where
    r: "mset (find_recent (orders s) @ rest) = mset (orders s)"
       "\<forall>x\<in>set rest. \<forall>y\<in>set (find_recent (orders s)). createdAt x \<le> createdAt y"
       "length (orders s) \<le> 10 \<longrightarrow> rest = []"
    by blast
  have a: "aiReply rt txt uid s = list_orders (user_of uid) (pushed s (user_of uid) txt) s"
    by (rule aiReply_list[OF assms])
  have "action (fst (aiReply rt txt uid s)) = Some ''list_orders'' \<and>
           orders_of (fst (aiReply rt txt uid s)) = Some (find_recent (orders s)) \<and>
           length (find_recent (orders s)) \<le> 10 \<and>
           length (find_recent (orders s)) = min 10 (length (orders s)) \<and>
           set (find_recent (orders s)) \<subseteq> set (orders s) \<and>
           sorted_wrt (\<lambda>a b. createdAt b \<le> createdAt a) (find_recent (orders s)) \<and>
           mset (find_recent (orders s) @ rest) = mset (orders s) \<and>
           (\<forall>x\<in>set rest. \<forall>y\<in>set (find_recent (orders s)). createdAt x \<le> createdAt y) \<and>
           (length (orders s) \<le> 10 \<longrightarrow> rest = []) \<and>
           orders (snd (aiReply rt txt uid s)) = orders s"
    using sorted_find_recent[of "orders s"] length_find_recent[of "orders s"]
      set_find_recent[of "orders s"] r
    unfolding a by (simp add: list_orders_def Let_def finish_def answer_def)
  then show ?thesis by (rule exI[of _ "find_recent (orders s)", OF exI[of _ rest]])
qed

text \<open>
  The theorem on a store of twelve orders: the ten newest are listed, newest first, and two
  are left out.
\<close>

theorem list_orders_recent_witness:
  "intent (parseIntent ''list my orders'') = ''list_orders'' \<and>
   map createdAt (orders twelve_orders) = [5, 12, 1, 9, 3, 11, 7, 2, 10, 4, 8, 6] \<and>
   (\<exists>found rest.
      action (fst (aiReply rt_plain ''list my orders'' None twelve_orders)) =
        Some ''list_orders'' \<and>
      orders_of (fst (aiReply rt_plain ''list my orders'' None twelve_orders)) = Some found \<and>
      map createdAt found = [12, 11, 10, 9, 8, 7, 6, 5, 4, 3] \<and>
      length found = 10 \<and>
      mset (found @ rest) = mset (orders twelve_orders) \<and>
      length rest = 2)"
proof -
  have h: "intent (parseIntent ''list my orders'') = ''list_orders''" by code_simp
  have o: "map createdAt (orders twelve_orders) = [5, 12, 1, 9, 3, 11, 7, 2, 10, 4, 8, 6]"
    by (simp add: twelve_orders_def)
  have n: "length (orders twelve_orders) = 12" by (simp add: twelve_orders_def)
  from list_orders_recent[OF h, of rt_plain None twelve_orders] obtain found rest where
    f: "action (fst (aiReply rt_plain ''list my orders'' None twelve_orders)) = Some ''list_orders''"
       "orders_of (fst (aiReply rt_plain ''list my orders'' None twelve_orders)) = Some found"
       "length found = min 10 (length (orders twelve_orders))"
       "mset (found @ rest) = mset (orders twelve_orders)"
    by blast
  have c: "map createdAt found = [12, 11, 10, 9, 8, 7, 6, 5, 4, 3]"
    using twelve_listed f(2) by simp
  have l: "length found = 10" using f(3) n by simp
  have "size (mset (found @ rest)) = 12" unfolding f(4) using n by simp
  then have l2: "length rest = 2" using l by simp
  have "action (fst (aiReply rt_plain ''list my orders'' None twelve_orders)) =
        Some ''list_orders'' \<and>
      orders_of (fst (aiReply rt_plain ''list my orders'' None twelve_orders)) = Some found \<and>
      map createdAt found = [12, 11, 10, 9, 8, 7, 6, 5, 4, 3] \<and>
      length found = 10 \<and>
      mset (found @ rest) = mset (orders twelve_orders) \<and>
      length rest = 2"
    using f c l l2 by (intro conjI)
  then have "\<exists>found rest.
      action (fst (aiReply rt_plain ''list my orders'' None twelve_orders)) =
        Some ''list_orders'' \<and>
      orders_of (fst (aiReply rt_plain ''list my orders'' None twelve_orders)) = Some found \<and>
      map createdAt found = [12, 11, 10, 9, 8, 7, 6, 5, 4, 3] \<and>
      length found = 10 \<and>
      mset (found @ rest) = mset (orders twelve_orders) \<and>
      length rest = 2"
    by (rule exI[of _ found, OF exI[of _ rest]])
  with h o show ?thesis by (intro conjI)
qed

text \<open>
  The order is not strict: two orders created in the same millisecond are listed with equal
  creation times.
\<close>

theorem list_orders_strict_counterexample:
  "(case orders_of (fst (aiReply rt_plain ''list orders'' None
        (snd (aiReply rt_again ''new order'' None
           (snd (aiReply rt_plain ''new order'' None no_orders)))))) of
       None \<Rightarrow> False
     | Some found \<Rightarrow>
         map trackingId found = [''ORD-loyw3v28ABCDEF'', ''ORD-loyw3v28ZYXWVU''] \<and>
         map createdAt found = [1700000000000, 1700000000000] \<and>
         \<not> sorted_wrt (\<lambda>a b. createdAt b < createdAt a) found)"
  by code_simp

section \<open>Order creation\<close>

text \<open>
  Claim C2. For every input classified as create_order, when the extraction backend is
  absent, throws, or returns unparsable output, the request still succeeds (HTTP 200, action
  \<open>created_order\<close>, the order stored) with the deterministic fallback fields: the item is
  the original text, the quantity 1, the amount 200 and the expenses 50.
\<close>

theorem create_order_fallback:
  assumes "intent (parseIntent txt) = ''create_order''"
    and "\<not> groq rt \<or> llm_extract rt txt = Rejected \<or> llm_extract rt txt = Unparsable"
  shows "\<exists>d. fst (aiReply rt txt uid s) =
             \<lparr>http = 200, reply = ''Order created. Tracking ID '' @ trackingId d @ ''.'',
              action = Some ''created_order'', order_of = OrderDoc d, orders_of = None,
              trackingId_of = None\<rparr> \<and>
           item d = txt \<and> qty d = 1 \<and> amount d = 200 \<and> expenses d = 50 \<and>
           status d = ''created'' \<and>
           orders (snd (aiReply rt txt uid s)) = orders s @ [d]"
  by (simp add: aiReply_create[OF assms(1)] create_order_result new_order_fallback[OF assms(2)]
      finish_def answer_def)

theorem create_order_fallback_witness:
  "intent (parseIntent ''create order for bread'') = ''create_order'' \<and>
   groq rt_rejecting \<and> llm_extract rt_rejecting ''create order for bread'' = Rejected \<and>
   (\<exists>d. action (fst (aiReply rt_rejecting ''create order for bread'' None no_orders)) =
          Some ''created_order'' \<and>
        http (fst (aiReply rt_rejecting ''create order for bread'' None no_orders)) = 200 \<and>
        order_of (fst (aiReply rt_rejecting ''create order for bread'' None no_orders)) =
          OrderDoc d \<and>
        item d = ''create order for bread'' \<and> qty d = 1 \<and> amount d = 200 \<and>
        expenses d = 50)"
proof -
  have h1: "intent (parseIntent ''create order for bread'') = ''create_order''" by code_simp
  have h2: "\<not> groq rt_rejecting \<or>
      llm_extract rt_rejecting ''create order for bread'' = Rejected \<or>
      llm_extract rt_rejecting ''create order for bread'' = Unparsable"
    by (simp add: rt_rejecting_def rt_plain_def)
  from create_order_fallback[OF h1 h2, of None no_orders] obtain d where
    "fst (aiReply rt_rejecting ''create order for bread'' None no_orders) =
       \<lparr>http = 200, reply = ''Order created. Tracking ID '' @ trackingId d @ ''.'',
        action = Some ''created_order'', order_of = OrderDoc d, orders_of = None,
        trackingId_of = None\<rparr>"
    "item d = ''create order for bread''" "qty d = 1" "amount d = 200" "expenses d = 50"
    by blast
  then have "action (fst (aiReply rt_rejecting ''create order for bread'' None no_orders)) =
          Some ''created_order'' \<and>
        http (fst (aiReply rt_rejecting ''create order for bread'' None no_orders)) = 200 \<and>
        order_of (fst (aiReply rt_rejecting ''create order for bread'' None no_orders)) =
          OrderDoc d \<and>
        item d = ''create order for bread'' \<and> qty d = 1 \<and> amount d = 200 \<and>
        expenses d = 50"
    by simp
  moreover have "groq rt_rejecting"
    "llm_extract rt_rejecting ''create order for bread'' = Rejected"
    by (simp_all add: rt_rejecting_def rt_plain_def)
  ultimately show ?thesis using h1 by blast
qed

text \<open>
  Claim C1, as amended. For every input classified as create_order and every extraction
  result, with a clock not before the epoch and a random text of letters and digits, the
  response has the action \<open>created_order\<close>, the returned order's tracking id is \<open>ORD-\<close>
  followed by at least one letter or digit, and its quantity is the quantity the extractor
  supplied when that is not zero, and 1 otherwise; so the quantity is at least 1 whenever the
  extractor supplied none, zero, or a quantity of at least 1.
\<close>

theorem create_order_response:
  assumes "intent (parseIntent txt) = ''create_order''"
    and "0 \<le> date_now rt"
    and "list_all is_alnum (slice 2 8 (random36 rt))"
  shows "\<exists>d. action (fst (aiReply rt txt uid s)) = Some ''created_order'' \<and>
           order_of (fst (aiReply rt txt uid s)) = OrderDoc d \<and>
           alnum_id (trackingId d) \<and>
           qty d = (case supplied_qty rt txt of None \<Rightarrow> 1 | Some q \<Rightarrow> if q = 0 then 1 else q) \<and>
           ((supplied_qty rt txt = None \<or> supplied_qty rt txt = Some 0 \<or>
             (\<exists>q. supplied_qty rt txt = Some q \<and> 1 \<le> q)) \<longrightarrow> 1 \<le> qty d)"
proof -
  let ?d = "new_order rt txt (user_of uid)"
  have "alnum_id (trackingId ?d)"
    using makeTrackingId_alnum_id[OF assms(2) assms(3)] by (simp add: new_order_trackingId)
  moreover have "(supplied_qty rt txt = None \<or> supplied_qty rt txt = Some 0 \<or>
             (\<exists>q. supplied_qty rt txt = Some q \<and> 1 \<le> q)) \<longrightarrow> 1 \<le> qty ?d"
    by (auto simp add: new_order_qty)
  ultimately show ?thesis
    using new_order_qty[of rt "txt" "user_of uid"]
    by (simp add: aiReply_create[OF assms(1)] create_order_result finish_def answer_def)
qed

theorem create_order_response_witness:
  "intent (parseIntent ''create order for bread'') = ''create_order'' \<and>
   0 \<le> date_now rt_plain \<and>
   list_all is_alnum (slice 2 8 (random36 rt_plain)) \<and>
   supplied_qty rt_plain ''create order for bread'' = None \<and>
   (\<exists>d. action (fst (aiReply rt_plain ''create order for bread'' None no_orders)) =
          Some ''created_order'' \<and>
        order_of (fst (aiReply rt_plain ''create order for bread'' None no_orders)) =
          OrderDoc d \<and>
        alnum_id (trackingId d) \<and> 1 \<le> qty d)"
proof -
  have h1: "intent (parseIntent ''create order for bread'') = ''create_order''" by code_simp
  have h2: "0 \<le> date_now rt_plain" by (simp add: rt_plain_def)
  have h3: "list_all is_alnum (slice 2 8 (random36 rt_plain))" by code_simp
  have h4: "supplied_qty rt_plain ''create order for bread'' = None"
    by (simp add: supplied_qty_def rt_plain_def)
  from create_order_response[OF h1 h2 h3, of None no_orders] h4
  have "\<exists>d. action (fst (aiReply rt_plain ''create order for bread'' None no_orders)) =
          Some ''created_order'' \<and>
        order_of (fst (aiReply rt_plain ''create order for bread'' None no_orders)) =
          OrderDoc d \<and>
        alnum_id (trackingId d) \<and> 1 \<le> qty d"
    by auto
  with h1 h2 h3 h4 show ?thesis by blast
qed

text \<open>
  The claim as stated fails: the generated id keeps the lower-case letters of the
  timestamp, and a negative quantity supplied by the extractor is stored as it is.
\<close>

theorem create_order_response_counterexample:
  "(case order_of (fst (aiReply rt_minus_two ''create order for bread'' None no_orders)) of
      OrderDoc d \<Rightarrow>
        action (fst (aiReply rt_minus_two ''create order for bread'' None no_orders)) =
          Some ''created_order'' \<and>
        trackingId d = ''ORD-loyw3v28ABCDEF'' \<and> \<not> upper_id (trackingId d) \<and>
        qty d = - 2 \<and> \<not> 1 \<le> qty d
    | NoOrder \<Rightarrow> False | NullOrder \<Rightarrow> False | OrderId t \<Rightarrow> False)"
  by code_simp

section \<open>Cancelling orders\<close>

text \<open>
  Claim C6, as amended. For every id token \<open>U\<close> (a non-empty run of letters, digits and
  hyphens) whose upper-cased form is the tracking id of no stored order, \<open>cancel order U\<close>
  returns the action \<open>cancel_order\<close>, a null order and the reply \<open>Couldn't find order U.\<close>, and
  leaves the store as it is. For every input classified as cancel_order that holds no id
  token after "cancel order", the response is the prompt \<open>ask_for_order_id\<close> and the store is
  left as it is.
\<close>

theorem cancel_order_unknown_or_missing:
  "(U \<noteq> [] \<and> list_all is_idchar U \<and>
    \<not> list_ex (\<lambda>d. trackingId d = toUpperCase U) (orders s) \<longrightarrow>
      action (fst (aiReply rt (''cancel order '' @ U) uid s)) = Some ''cancel_order'' \<and>
      order_of (fst (aiReply rt (''cancel order '' @ U) uid s)) = NullOrder \<and>
      reply (fst (aiReply rt (''cancel order '' @ U) uid s)) =
        ''Couldn'' @ [CHR 0x27] @ ''t find order '' @ U @ ''.'' \<and>
      orders (snd (aiReply rt (''cancel order '' @ U) uid s)) = orders s) \<and>
   (intent (parseIntent txt) = ''cancel_order'' \<and> \<not> has_cancel_id txt \<longrightarrow>
      action (fst (aiReply rt txt uid s)) = Some ''ask_for_order_id'' \<and>
      order_of (fst (aiReply rt txt uid s)) = NoOrder \<and>
      orders (snd (aiReply rt txt uid s)) = orders s)"
proof (intro conjI impI)
  assume a: "U \<noteq> [] \<and> list_all is_idchar U \<and>
    \<not> list_ex (\<lambda>d. trackingId d = toUpperCase U) (orders s)"
  then have r: "aiReply rt (''cancel order '' @ U) uid s =
     finish s (user_of uid) (pushed s (user_of uid) (''cancel order '' @ U)) (orders s)
       ((answer (''Couldn'' @ [CHR 0x27] @ ''t find order '' @ U @ ''.'') ''cancel_order'')
          \<lparr>order_of := NullOrder\<rparr>)"
    by (intro cancel_unknown) simp_all
  show "action (fst (aiReply rt (''cancel order '' @ U) uid s)) = Some ''cancel_order''"
    unfolding r by (simp add: finish_def answer_def)
  show "order_of (fst (aiReply rt (''cancel order '' @ U) uid s)) = NullOrder"
    unfolding r by (simp add: finish_def answer_def)
  show "reply (fst (aiReply rt (''cancel order '' @ U) uid s)) =
        ''Couldn'' @ [CHR 0x27] @ ''t find order '' @ U @ ''.''"
    unfolding r by (simp add: finish_def answer_def)
  show "orders (snd (aiReply rt (''cancel order '' @ U) uid s)) = orders s"
    unfolding r by (simp add: finish_def answer_def)
next
  assume b: "intent (parseIntent txt) = ''cancel_order'' \<and> \<not> has_cancel_id txt"
  then have r: "aiReply rt txt uid s =
     finish s (user_of uid) (pushed s (user_of uid) txt) (orders s)
       (answer
          (''Please provide the order ID to cancel (e.g., '' @ [CHR 0x27] @
           ''Cancel order ORD-ABC123'' @ [CHR 0x27] @ '').'')
          ''ask_for_order_id'')"
    by (intro cancel_no_id) simp_all
  show "action (fst (aiReply rt txt uid s)) = Some ''ask_for_order_id''"
    unfolding r by (simp add: finish_def answer_def)
  show "order_of (fst (aiReply rt txt uid s)) = NoOrder"
    unfolding r by (simp add: finish_def answer_def)
  show "orders (snd (aiReply rt txt uid s)) = orders s"
    unfolding r by (simp add: finish_def answer_def)
qed

theorem cancel_order_unknown_or_missing_witness:
  "''ORD-XYZ'' \<noteq> [] \<and> list_all is_idchar ''ORD-XYZ'' \<and>
   \<not> list_ex (\<lambda>d. trackingId d = toUpperCase ''ORD-XYZ'') (orders (one_order ''ORD-ABC'')) \<and>
   action (fst (aiReply rt_plain (''cancel order '' @ ''ORD-XYZ'') None (one_order ''ORD-ABC''))) =
     Some ''cancel_order'' \<and>
   order_of (fst (aiReply rt_plain (''cancel order '' @ ''ORD-XYZ'') None (one_order ''ORD-ABC''))) =
     NullOrder \<and>
   orders (snd (aiReply rt_plain (''cancel order '' @ ''ORD-XYZ'') None (one_order ''ORD-ABC''))) =
     orders (one_order ''ORD-ABC'') \<and>
   intent (parseIntent ''please cancel order'') = ''cancel_order'' \<and>
   \<not> has_cancel_id ''please cancel order'' \<and>
   action (fst (aiReply rt_plain ''please cancel order'' None (one_order ''ORD-ABC''))) =
     Some ''ask_for_order_id'' \<and>
   orders (snd (aiReply rt_plain ''please cancel order'' None (one_order ''ORD-ABC''))) =
     orders (one_order ''ORD-ABC'')"
proof -
  have h1: "''ORD-XYZ'' \<noteq> []" by simp
  have h2: "list_all is_idchar ''ORD-XYZ''" by code_simp
  have h3: "\<not> list_ex (\<lambda>d. trackingId d = toUpperCase ''ORD-XYZ'') (orders (one_order ''ORD-ABC''))"
    by code_simp
  have h4: "intent (parseIntent ''please cancel order'') = ''cancel_order''" by code_simp
  have "matches re_cancel_id ''please cancel order'' = None" by code_simp
  then have h5: "\<not> has_cancel_id ''please cancel order''" by (simp add: has_cancel_id_iff)
  note th = cancel_order_unknown_or_missing[of "''ORD-XYZ''" "one_order ''ORD-ABC''" rt_plain None
      "''please cancel order''"]
  from th h1 h2 h3 have p1:
    "action (fst (aiReply rt_plain (''cancel order '' @ ''ORD-XYZ'') None (one_order ''ORD-ABC''))) =
       Some ''cancel_order''"
    "order_of (fst (aiReply rt_plain (''cancel order '' @ ''ORD-XYZ'') None (one_order ''ORD-ABC''))) =
       NullOrder"
    "orders (snd (aiReply rt_plain (''cancel order '' @ ''ORD-XYZ'') None (one_order ''ORD-ABC''))) =
       orders (one_order ''ORD-ABC'')"
    by blast+
  from th h4 h5 have p2:
    "action (fst (aiReply rt_plain ''please cancel order'' None (one_order ''ORD-ABC''))) =
       Some ''ask_for_order_id''"
    "orders (snd (aiReply rt_plain ''please cancel order'' None (one_order ''ORD-ABC''))) =
       orders (one_order ''ORD-ABC'')"
    by blast+
  from h1 h2 h3 h4 h5 p1 p2 show ?thesis by (intro conjI)
qed

text \<open>
  The claim as stated fails for an id that is absent from the store while its upper-cased
  form is present: the lookup is by the upper-cased id, and that order is cancelled.
\<close>

theorem cancel_order_unknown_counterexample:
  "\<not> list_ex (\<lambda>d. trackingId d = ''ORD-abc'') (orders (one_order ''ORD-ABC'')) \<and>
   action (fst (aiReply rt_plain ''cancel order ORD-abc'' None (one_order ''ORD-ABC''))) =
     Some ''cancel_order'' \<and>
   order_of (fst (aiReply rt_plain ''cancel order ORD-abc'' None (one_order ''ORD-ABC''))) =
     OrderDoc ((bread ''ORD-ABC'')\<lparr>status := ''cancelled''\<rparr>) \<and>
   reply (fst (aiReply rt_plain ''cancel order ORD-abc'' None (one_order ''ORD-ABC''))) =
     ''Order ORD-ABC cancelled.'' \<and>
   map status (orders (snd (aiReply rt_plain ''cancel order ORD-abc'' None (one_order ''ORD-ABC'')))) =
     [''cancelled'']"
  by code_simp


text \<open>
  Claim C10, as amended. Cancelling upper-cases the id token before the lookup, while a
  generated tracking id keeps the letters of \<open>Date.now().toString(36)\<close> in lower case. For
  every created order whose generated id contains a lower-case letter, and a store in which
  no order has the upper-cased id, \<open>cancel order\<close> with that exact id returns a null order with
  the reply \<open>Couldn't find order ...\<close> and leaves the stored order, still in status
  \<open>created\<close>, unchanged.
\<close>

theorem cancel_generated_id:
  assumes "intent (parseIntent txt) = ''create_order''"
    and "0 \<le> date_now rt"
    and "list_all is_alnum (slice 2 8 (random36 rt))"
    and "order_of (fst (aiReply rt txt uid s)) = OrderDoc d"
    and "toUpperCase (trackingId d) \<noteq> trackingId d"
    and "\<not> list_ex (\<lambda>x. trackingId x = toUpperCase (trackingId d)) (orders s)"
  shows "action (fst (aiReply rt' (''cancel order '' @ trackingId d) uid'
                        (snd (aiReply rt txt uid s)))) = Some ''cancel_order'' \<and>
         order_of (fst (aiReply rt' (''cancel order '' @ trackingId d) uid'
                        (snd (aiReply rt txt uid s)))) = NullOrder \<and>
         reply (fst (aiReply rt' (''cancel order '' @ trackingId d) uid'
                        (snd (aiReply rt txt uid s)))) =
           ''Couldn'' @ [CHR 0x27] @ ''t find order '' @ trackingId d @ ''.'' \<and>
         orders (snd (aiReply rt' (''cancel order '' @ trackingId d) uid'
                        (snd (aiReply rt txt uid s)))) = orders s @ [d] \<and>
         orders (snd (aiReply rt txt uid s)) = orders s @ [d] \<and>
         status d = ''created''"
proof -
  define s1 where "s1 = snd (aiReply rt txt uid s)"
  define T where "T = trackingId d"
  have d: "d = new_order rt txt (user_of uid)"
    using assms(4) aiReply_create_result(1)[OF assms(1), of rt uid s] by simp
  have "alnum_id T"
    unfolding T_def d new_order_trackingId by (rule makeTrackingId_alnum_id[OF assms(2) assms(3)])
  note T = alnum_id_idchars[OF this]
  have o1: "orders s1 = orders s @ [d]"
    unfolding s1_def d by (rule aiReply_create_result(2)[OF assms(1)])
  have n: "\<not> list_ex (\<lambda>x. trackingId x = toUpperCase T) (orders s1)"
    using assms(5) assms(6) by (auto simp add: o1 T_def list_ex_iff)
  have st: "status d = ''created''" unfolding d by (rule status_new_order)
  note r = cancel_unknown[OF T(1) T(2) n, of rt' uid']
  show ?thesis
    unfolding s1_def[symmetric] T_def[symmetric] r
    by (simp add: finish_def answer_def o1 st)
qed

theorem cancel_generated_id_witness:
  "intent (parseIntent ''create order for bread'') = ''create_order'' \<and>
   0 \<le> date_now rt_plain \<and>
   list_all is_alnum (slice 2 8 (random36 rt_plain)) \<and>
   order_of (fst (aiReply rt_plain ''create order for bread'' None no_orders)) =
     OrderDoc (new_order rt_plain ''create order for bread'' ''demo-user'') \<and>
   trackingId (new_order rt_plain ''create order for bread'' ''demo-user'') =
     ''ORD-loyw3v28ABCDEF'' \<and>
   toUpperCase ''ORD-loyw3v28ABCDEF'' \<noteq> ''ORD-loyw3v28ABCDEF'' \<and>
   \<not> list_ex (\<lambda>x. trackingId x = toUpperCase ''ORD-loyw3v28ABCDEF'') (orders no_orders) \<and>
   action (fst (aiReply rt_again (''cancel order '' @ ''ORD-loyw3v28ABCDEF'') None
                  (snd (aiReply rt_plain ''create order for bread'' None no_orders)))) =
     Some ''cancel_order'' \<and>
   order_of (fst (aiReply rt_again (''cancel order '' @ ''ORD-loyw3v28ABCDEF'') None
                  (snd (aiReply rt_plain ''create order for bread'' None no_orders)))) =
     NullOrder \<and>
   orders (snd (aiReply rt_again (''cancel order '' @ ''ORD-loyw3v28ABCDEF'') None
                  (snd (aiReply rt_plain ''create order for bread'' None no_orders)))) =
     orders no_orders @ [new_order rt_plain ''create order for bread'' ''demo-user'']"
proof -
  define d where "d = new_order rt_plain ''create order for bread'' ''demo-user''"
  have h1: "intent (parseIntent ''create order for bread'') = ''create_order''" by code_simp
  have h2: "0 \<le> date_now rt_plain" by (simp add: rt_plain_def)
  have h3: "list_all is_alnum (slice 2 8 (random36 rt_plain))" by code_simp
  have h4: "order_of (fst (aiReply rt_plain ''create order for bread'' None no_orders)) = OrderDoc d"
    using aiReply_create_result(1)[OF h1, of rt_plain None no_orders]
    by (simp add: user_of_def d_def)
  have t: "trackingId d = ''ORD-loyw3v28ABCDEF''" unfolding d_def by code_simp
  have h5: "toUpperCase ''ORD-loyw3v28ABCDEF'' \<noteq> ''ORD-loyw3v28ABCDEF''" by code_simp
  have h6: "\<not> list_ex (\<lambda>x. trackingId x = toUpperCase ''ORD-loyw3v28ABCDEF'') (orders no_orders)"
    by (simp add: no_orders_def)
  from cancel_generated_id[OF h1 h2 h3 h4, of rt_again None] h5 h6
  have "action (fst (aiReply rt_again (''cancel order '' @ ''ORD-loyw3v28ABCDEF'') None
                  (snd (aiReply rt_plain ''create order for bread'' None no_orders)))) =
          Some ''cancel_order''"
    "order_of (fst (aiReply rt_again (''cancel order '' @ ''ORD-loyw3v28ABCDEF'') None
                  (snd (aiReply rt_plain ''create order for bread'' None no_orders)))) =
          NullOrder"
    "orders (snd (aiReply rt_again (''cancel order '' @ ''ORD-loyw3v28ABCDEF'') None
                  (snd (aiReply rt_plain ''create order for bread'' None no_orders)))) =
          orders no_orders @ [d]"
    unfolding t by blast+
  with h1 h2 h3 h4 t h5 h6 show ?thesis unfolding d_def by (intro conjI)
qed

text \<open>
  The claim as stated also says that tracking with the same exact id succeeds. It does not:
  the classifier captures the id from the lower-cased text.
\<close>

theorem cancel_generated_id_counterexample:
  "(case order_of (fst (aiReply rt_again ''new order'' None no_orders)) of
      OrderDoc d \<Rightarrow>
        trackingId d = ''ORD-loyw3v28ZYXWVU'' \<and>
        toUpperCase (trackingId d) \<noteq> trackingId d \<and>
        action (fst (aiReply rt_plain (''track order '' @ trackingId d) None
                       (snd (aiReply rt_again ''new order'' None no_orders)))) =
          Some ''order_not_found'' \<and>
        action (fst (aiReply rt_plain (''track order '' @ trackingId d) None
                       (snd (aiReply rt_again ''new order'' None no_orders)))) \<noteq>
          Some ''track_order''
    | NoOrder \<Rightarrow> False | NullOrder \<Rightarrow> False | OrderId t \<Rightarrow> False)"
  by code_simp

section \<open>Tracking a created order\<close>

text \<open>
  Claim C4 says that tracking a just created order by its tracking id returns that order.
  The code does not do so. The classifier lower-cases the text before it captures the id,
  and every generated id starts with the upper-case \<open>ORD-\<close>: for every created order, in a
  store that holds no order under the lower-cased id, \<open>track order\<close> with the returned id
  answers \<open>order_not_found\<close>.
\<close>

theorem track_after_create_not_found:
  assumes "intent (parseIntent txt) = ''create_order''"
    and "0 \<le> date_now rt"
    and "list_all is_alnum (slice 2 8 (random36 rt))"
    and "order_of (fst (aiReply rt txt uid s)) = OrderDoc d"
    and "\<not> list_ex (\<lambda>x. trackingId x = toLowerCase (trackingId d)) (orders s)"
  shows "action (fst (aiReply rt' (''track order '' @ trackingId d) uid'
                        (snd (aiReply rt txt uid s)))) = Some ''order_not_found'' \<and>
         order_of (fst (aiReply rt' (''track order '' @ trackingId d) uid'
                        (snd (aiReply rt txt uid s)))) = NoOrder \<and>
         trackingId_of (fst (aiReply rt' (''track order '' @ trackingId d) uid'
                        (snd (aiReply rt txt uid s)))) = Some (toLowerCase (trackingId d))"
proof -
  define s1 where "s1 = snd (aiReply rt txt uid s)"
  define T where "T = trackingId d"
  have d: "d = new_order rt txt (user_of uid)"
    using assms(4) aiReply_create_result(1)[OF assms(1), of rt uid s] by simp
  have "alnum_id T"
    unfolding T_def d new_order_trackingId by (rule makeTrackingId_alnum_id[OF assms(2) assms(3)])
  note T = alnum_id_idchars[OF this]
  have o1: "orders s1 = orders s @ [d]"
    unfolding s1_def d by (rule aiReply_create_result(2)[OF assms(1)])
  have "\<not> list_ex (\<lambda>x. trackingId x = toLowerCase T) (orders s1)"
    using assms(5) lower_ORD_differs[OF T(3)] by (auto simp add: o1 T_def list_ex_iff)
  then have f: "findOne (\<lambda>x. trackingId x = toLowerCase T) (orders s1) = None"
    by (rule findOne_None)
  have p: "parseIntent (''track order '' @ T) =
           \<lparr>intent = ''track_order'', captured = Some (toLowerCase T)\<rparr>"
    by (rule parseIntent_track[OF T(1) T(2)])
  have ne: "toLowerCase T \<noteq> []" using T(1) by (simp add: toLowerCase_def)
  have "aiReply rt' (''track order '' @ T) uid' s1 =
      track_order (toLowerCase T) (user_of uid') (pushed s1 (user_of uid') (''track order '' @ T)) s1"
  proof (rule aiReply_track)
    show "intent (parseIntent (''track order '' @ T)) = ''track_order''"
      by (simp only: p parsed.select_convs)
    show "captured (parseIntent (''track order '' @ T)) = Some (toLowerCase T)"
      by (simp only: p parsed.select_convs)
    show "toLowerCase T \<noteq> []" by (rule ne)
  qed
  then show ?thesis
    unfolding s1_def[symmetric] T_def[symmetric]
    by (simp add: track_order_def f finish_def answer_def)
qed

theorem track_after_create_not_found_witness:
  "intent (parseIntent ''create order for bread'') = ''create_order'' \<and>
   0 \<le> date_now rt_plain \<and>
   list_all is_alnum (slice 2 8 (random36 rt_plain)) \<and>
   order_of (fst (aiReply rt_plain ''create order for bread'' None no_orders)) =
     OrderDoc (new_order rt_plain ''create order for bread'' ''demo-user'') \<and>
   trackingId (new_order rt_plain ''create order for bread'' ''demo-user'') =
     ''ORD-loyw3v28ABCDEF'' \<and>
   \<not> list_ex (\<lambda>x. trackingId x = toLowerCase ''ORD-loyw3v28ABCDEF'') (orders no_orders) \<and>
   action (fst (aiReply rt_again (''track order '' @ ''ORD-loyw3v28ABCDEF'') None
                  (snd (aiReply rt_plain ''create order for bread'' None no_orders)))) =
     Some ''order_not_found'' \<and>
   trackingId_of (fst (aiReply rt_again (''track order '' @ ''ORD-loyw3v28ABCDEF'') None
                  (snd (aiReply rt_plain ''create order for bread'' None no_orders)))) =
     Some ''ord-loyw3v28abcdef''"
proof -
  define d where "d = new_order rt_plain ''create order for bread'' ''demo-user''"
  have h1: "intent (parseIntent ''create order for bread'') = ''create_order''" by code_simp
  have h2: "0 \<le> date_now rt_plain" by (simp add: rt_plain_def)
  have h3: "list_all is_alnum (slice 2 8 (random36 rt_plain))" by code_simp
  have h4: "order_of (fst (aiReply rt_plain ''create order for bread'' None no_orders)) = OrderDoc d"
    using aiReply_create_result(1)[OF h1, of rt_plain None no_orders]
    by (simp add: user_of_def d_def)
  have t: "trackingId d = ''ORD-loyw3v28ABCDEF''" unfolding d_def by code_simp
  have l: "toLowerCase ''ORD-loyw3v28ABCDEF'' = ''ord-loyw3v28abcdef''" by code_simp
  have h5: "\<not> list_ex (\<lambda>x. trackingId x = toLowerCase ''ORD-loyw3v28ABCDEF'') (orders no_orders)"
    by (simp add: no_orders_def)
  from track_after_create_not_found[OF h1 h2 h3 h4, of rt_again None] h5
  have "action (fst (aiReply rt_again (''track order '' @ ''ORD-loyw3v28ABCDEF'') None
                  (snd (aiReply rt_plain ''create order for bread'' None no_orders)))) =
          Some ''order_not_found''"
    "trackingId_of (fst (aiReply rt_again (''track order '' @ ''ORD-loyw3v28ABCDEF'') None
                  (snd (aiReply rt_plain ''create order for bread'' None no_orders)))) =
          Some (toLowerCase ''ORD-loyw3v28ABCDEF'')"
    unfolding t by blast+
  with h1 h2 h3 h4 t h5 show ?thesis unfolding d_def l by (intro conjI)
qed

section \<open>Adding an item and setting the status in one update\<close>

text \<open>
  Claim C5 says that for every existing order with item \<open>bread\<close>, an update whose text holds
  the order's tracking id and \<open>add juice and status shipped\<close> stores item \<open>bread, juice\<close> and
  status \<open>shipped\<close> in one call. The code does not do so for the orders it creates. The
  update branch looks the order up under the upper-cased id token, while a generated tracking
  id keeps the letters of \<open>Date.now().toString(36)\<close> in lower case, and from November 1994
  to May 2059 this text starts with a letter: for every order with item \<open>bread\<close> created
  in these years, in a store that holds no order under the upper-cased id, the update
  command with the returned id answers \<open>order_not_found\<close> and the stored order keeps its
  item and the status \<open>created\<close>.
\<close>

theorem update_created_order_not_found:
  assumes "intent (parseIntent txt) = ''create_order''"
    and "783641640960 \<le> date_now rt" and "date_now rt < 2821109907456"
    and "list_all is_alnum (slice 2 8 (random36 rt))"
    and "order_of (fst (aiReply rt txt uid s)) = OrderDoc d"
    and "item d = ''bread''"
    and "\<not> list_ex (\<lambda>x. trackingId x = toUpperCase (trackingId d)) (orders s)"
    and "intent (parseIntent (''update '' @ trackingId d @ '' add juice and status shipped'')) =
           ''update_order''"
  shows "action (fst (aiReply rt' (''update '' @ trackingId d @ '' add juice and status shipped'') uid'
                        (snd (aiReply rt txt uid s)))) = Some ''order_not_found'' \<and>
         order_of (fst (aiReply rt' (''update '' @ trackingId d @ '' add juice and status shipped'') uid'
                        (snd (aiReply rt txt uid s)))) = NoOrder \<and>
         trackingId_of (fst (aiReply rt' (''update '' @ trackingId d @ '' add juice and status shipped'') uid'
                        (snd (aiReply rt txt uid s)))) = Some (toUpperCase (trackingId d)) \<and>
         orders (snd (aiReply rt' (''update '' @ trackingId d @ '' add juice and status shipped'') uid'
                        (snd (aiReply rt txt uid s)))) = orders s @ [d] \<and>
         orders (snd (aiReply rt txt uid s)) = orders s @ [d] \<and>
         item d \<noteq> ''bread, juice'' \<and> status d = ''created''"
proof -
  define s1 where "s1 = snd (aiReply rt txt uid s)"
  define T where "T = trackingId d"
  define tx where "tx = ''update '' @ T @ '' add juice and status shipped''"
  have d: "d = new_order rt txt (user_of uid)"
    using assms(5) aiReply_create_result(1)[OF assms(1), of rt uid s] by simp
  have n0: "0 \<le> date_now rt" using assms(2) by simp
  have al: "alnum_id T"
    unfolding T_def d new_order_trackingId by (rule makeTrackingId_alnum_id[OF n0 assms(4)])
  have lc: "toUpperCase T \<noteq> T"
    unfolding T_def d new_order_trackingId by (rule generated_id_has_lower[OF assms(2) assms(3)])
  have o1: "orders s1 = orders s @ [d]"
    unfolding s1_def d by (rule aiReply_create_result(2)[OF assms(1)])
  have "\<not> list_ex (\<lambda>x. trackingId x = toUpperCase T) (orders s1)"
    using lc assms(7) by (auto simp add: o1 T_def list_ex_iff)
  then have f: "findOne (\<lambda>x. trackingId x = toUpperCase T) (orders s1) = None"
    by (rule findOne_None)
  have st: "status d = ''created''" unfolding d by (rule status_new_order)
  have e: "extractTrackingIdFrom tx = Some (toUpperCase T)"
    unfolding tx_def by (rule extract_update_any[OF al])
  have p: "intent (parseIntent tx) = ''update_order''"
    unfolding tx_def T_def by (rule assms(8))
  have "aiReply rt' tx uid' s1 = update_order rt' tx (user_of uid') (pushed s1 (user_of uid') tx) s1"
    by (rule aiReply_update[OF p])
  then have "action (fst (aiReply rt' tx uid' s1)) = Some ''order_not_found'' \<and>
      order_of (fst (aiReply rt' tx uid' s1)) = NoOrder \<and>
      trackingId_of (fst (aiReply rt' tx uid' s1)) = Some (toUpperCase T) \<and>
      orders (snd (aiReply rt' tx uid' s1)) = orders s1"
    by (simp add: update_order_def e f finish_def answer_def)
  then show ?thesis
    unfolding tx_def T_def s1_def using o1 st assms(6) by (simp add: s1_def)
qed

theorem update_created_order_not_found_witness:
  "intent (parseIntent ''create order for bread'') = ''create_order'' \<and>
   783641640960 \<le> date_now rt_bread \<and> date_now rt_bread < 2821109907456 \<and>
   list_all is_alnum (slice 2 8 (random36 rt_bread)) \<and>
   order_of (fst (aiReply rt_bread ''create order for bread'' None no_orders)) =
     OrderDoc (new_order rt_bread ''create order for bread'' ''demo-user'') \<and>
   item (new_order rt_bread ''create order for bread'' ''demo-user'') = ''bread'' \<and>
   trackingId (new_order rt_bread ''create order for bread'' ''demo-user'') =
     ''ORD-loyw3v28ABCDEF'' \<and>
   toUpperCase ''ORD-loyw3v28ABCDEF'' = ''ORD-LOYW3V28ABCDEF'' \<and>
   \<not> list_ex (\<lambda>x. trackingId x = ''ORD-LOYW3V28ABCDEF'') (orders no_orders) \<and>
   intent (parseIntent ''update ORD-loyw3v28ABCDEF add juice and status shipped'') =
     ''update_order'' \<and>
   action (fst (aiReply rt_plain ''update ORD-loyw3v28ABCDEF add juice and status shipped'' None
                  (snd (aiReply rt_bread ''create order for bread'' None no_orders)))) =
     Some ''order_not_found'' \<and>
   trackingId_of (fst (aiReply rt_plain ''update ORD-loyw3v28ABCDEF add juice and status shipped'' None
                  (snd (aiReply rt_bread ''create order for bread'' None no_orders)))) =
     Some ''ORD-LOYW3V28ABCDEF'' \<and>
   orders (snd (aiReply rt_plain ''update ORD-loyw3v28ABCDEF add juice and status shipped'' None
                  (snd (aiReply rt_bread ''create order for bread'' None no_orders)))) =
     [new_order rt_bread ''create order for bread'' ''demo-user'']"
proof -
  define d where "d = new_order rt_bread ''create order for bread'' ''demo-user''"
  have h1: "intent (parseIntent ''create order for bread'') = ''create_order''" by code_simp
  have h2: "783641640960 \<le> date_now rt_bread" "date_now rt_bread < 2821109907456"
    by (simp_all add: rt_bread_def rt_plain_def)
  have h3: "list_all is_alnum (slice 2 8 (random36 rt_bread))" by code_simp
  have h4: "order_of (fst (aiReply rt_bread ''create order for bread'' None no_orders)) = OrderDoc d"
    using aiReply_create_result(1)[OF h1, of rt_bread None no_orders]
    by (simp add: user_of_def d_def)
  have h5: "item d = ''bread''" unfolding d_def by code_simp
  have t: "trackingId d = ''ORD-loyw3v28ABCDEF''" unfolding d_def by code_simp
  have u: "toUpperCase ''ORD-loyw3v28ABCDEF'' = ''ORD-LOYW3V28ABCDEF''" by code_simp
  have h7: "\<not> list_ex (\<lambda>x. trackingId x = toUpperCase (trackingId d)) (orders no_orders)"
    by (simp add: no_orders_def)
  have p: "intent (parseIntent ''update ORD-loyw3v28ABCDEF add juice and status shipped'') =
     ''update_order''" by code_simp
  have e: "''update '' @ ''ORD-loyw3v28ABCDEF'' @ '' add juice and status shipped'' =
      ''update ORD-loyw3v28ABCDEF add juice and status shipped''" by simp
  have h8: "intent (parseIntent (''update '' @ trackingId d @ '' add juice and status shipped'')) =
           ''update_order''"
    unfolding t e by (rule p)
  have n: "\<not> list_ex (\<lambda>x. trackingId x = ''ORD-LOYW3V28ABCDEF'') (orders no_orders)"
    by (simp add: no_orders_def)
  from update_created_order_not_found[OF h1 h2 h3 h4 h5 h7 h8, of rt_plain None]
  have "action (fst (aiReply rt_plain ''update ORD-loyw3v28ABCDEF add juice and status shipped'' None
                  (snd (aiReply rt_bread ''create order for bread'' None no_orders)))) =
          Some ''order_not_found''"
    "trackingId_of (fst (aiReply rt_plain ''update ORD-loyw3v28ABCDEF add juice and status shipped'' None
                  (snd (aiReply rt_bread ''create order for bread'' None no_orders)))) =
          Some ''ORD-LOYW3V28ABCDEF''"
    "orders (snd (aiReply rt_plain ''update ORD-loyw3v28ABCDEF add juice and status shipped'' None
                  (snd (aiReply rt_bread ''create order for bread'' None no_orders)))) =
          orders no_orders @ [d]"
    unfolding t e u by blast+
  then have "orders (snd (aiReply rt_plain ''update ORD-loyw3v28ABCDEF add juice and status shipped'' None
                  (snd (aiReply rt_bread ''create order for bread'' None no_orders)))) = [d]"
    and "action (fst (aiReply rt_plain ''update ORD-loyw3v28ABCDEF add juice and status shipped'' None
                  (snd (aiReply rt_bread ''create order for bread'' None no_orders)))) =
          Some ''order_not_found''"
    and "trackingId_of (fst (aiReply rt_plain ''update ORD-loyw3v28ABCDEF add juice and status shipped'' None
                  (snd (aiReply rt_bread ''create order for bread'' None no_orders)))) =
          Some ''ORD-LOYW3V28ABCDEF''"
    by (simp_all add: no_orders_def)
  with h1 h2 h3 h4 h5 t u n p show ?thesis unfolding d_def by (intro conjI)
qed

text \<open>
  The branch itself does what the claim says once the stored id is in upper case: for an id
  \<open>ORD-\<close> followed by a non-empty run of upper-case letters and digits that does not
  contain \<open>ADD\<close>, does not end with \<open>TRACK\<close> and is neither \<open>DELIVERED\<close> nor \<open>PROCESSING\<close>
  (words that the branch and the classifier read anywhere in the text), the order found under
  the id gets item \<open>bread, juice\<close> and status \<open>shipped\<close> in one call.
\<close>

lemma update_upper_id_add_and_status:
  assumes "run \<noteq> []" and "list_all is_updigit run"
    and "\<not> occurs ''ADD'' run" and "\<not> ends_with ''TRACK'' run"
    and "run \<noteq> ''DELIVERED''" and "run \<noteq> ''PROCESSING''"
    and "findOne (\<lambda>x. trackingId x = ''ORD-'' @ run) (orders s) = Some (i, d)"
    and "item d = ''bread''"
  shows "\<exists>d'. action (fst (aiReply rt (''update ORD-'' @ run @ '' add juice and status shipped'') uid s)) =
                 Some ''update_order'' \<and>
               order_of (fst (aiReply rt (''update ORD-'' @ run @ '' add juice and status shipped'') uid s)) =
                 OrderDoc d' \<and>
               trackingId d' = ''ORD-'' @ run \<and>
               item d' = ''bread, juice'' \<and> status d' = ''shipped'' \<and>
               orders (snd (aiReply rt (''update ORD-'' @ run @ '' add juice and status shipped'') uid s)) =
                 (orders s)[i := d']"
proof -
  define tx where "tx = ''update ORD-'' @ run @ '' add juice and status shipped''"
  define T where "T = ''ORD-'' @ run"
  have p: "intent (parseIntent tx) = ''update_order''"
    unfolding tx_def by (rule parseIntent_update_text[OF assms(2) assms(4)])
  have e: "extractTrackingIdFrom tx = Some T"
    unfolding tx_def T_def by (rule extract_update_text[OF assms(1) assms(2)])
  have st: "extractStatus tx = Some ''shipped''"
    unfolding tx_def by (rule extractStatus_update_text[OF assms(1) assms(2) assms(5) assms(6)])
  have ad: "add_items tx d = Some ''bread, juice''"
    unfolding tx_def by (rule add_items_update_text[OF assms(2) assms(3) assms(8)])
  have rm: "remove_items rt tx d = Done None"
    unfolding tx_def by (rule remove_items_update_text[OF assms(2)])
  have f: "findOne (\<lambda>x. trackingId x = T) (orders s) = Some (i, d)"
    unfolding T_def by (rule assms(7))
  from findOne_Some[OF f] have ix: "i < length (orders s)" "orders s ! i = d" "trackingId d = T"
    by simp_all
  have "aiReply rt tx uid s = update_order rt tx (user_of uid) (pushed s (user_of uid) tx) s"
    by (rule aiReply_update[OF p])
  then show ?thesis
    unfolding tx_def[symmetric] T_def[symmetric]
    by (simp add: update_order_def e f st ad rm ix Let_def orelse_def findByIdAndUpdate_def
        apply_updates_def finish_def answer_def)
qed

end
